theory Spec2Isabelle
  imports Main "HOL-Library.Extended_Nat"
begin

section \<open>Combined data loaders of \<^verbatim>\<open>pytorch_lightning/trainer/supporters.py\<close>\<close>

text \<open>
  A shallow embedding of the classes \<^verbatim>\<open>CycleIterator\<close>, \<^verbatim>\<open>CombinedDataset\<close>,
  \<^verbatim>\<open>CombinedLoader\<close> and \<^verbatim>\<open>CombinedLoaderIterator\<close>. Exceptions are values of
  the type \<open>error\<close>; a method that mutates its object returns the new object beside
  its result; Python's untyped values are given the tagged types below.
\<close>

subsection \<open>Errors, containers and Python values\<close>

text \<open>
  The exceptions the embedded code raises or lets through. \<open>StopIteration\<close> is the
  exhaustion signal of the iterator protocol, \<open>MisconfigurationException\<close> the
  invalid-mode error, \<open>ValueError\<close> what the builtins \<^verbatim>\<open>min\<close> and \<^verbatim>\<open>max\<close> raise
  on an empty argument, \<open>TypeError\<close> what an unsupported comparison raises, and
  \<open>SourceError\<close> any other exception raised by a source while it is iterated.
\<close>

datatype error =
    StopIteration
  | MisconfigurationException
  | ValueError
  | TypeError
  | SourceError string

text \<open>
  A collection as \<^verbatim>\<open>apply_to_collection\<close> sees it: a leaf, a sequence (a list or a
  tuple) of collections, or a mapping from string keys to collections, which keeps
  the order in which its keys were inserted.
\<close>

datatype seq_kind = PyList | PyTuple

type_synonym key = string

datatype 'a nested =
    Leaf 'a
  | Seq seq_kind "'a nested list"
  | Mapping "(key \<times> 'a nested) list"

text \<open>
  A length is an \<^verbatim>\<open>int\<close> or \<^verbatim>\<open>float('inf')\<close>: an extended natural number. The
  value that the length computations hand around is a number, or a list, tuple or
  dict of such values (\<^verbatim>\<open>all_lengths\<close> mirrors the container it was computed from).
\<close>

type_synonym pyval = "enat nested"

text \<open>The leaves of a collection, in the order a traversal visits them.\<close>

fun leaves :: "'a nested \<Rightarrow> 'a list" where
  "leaves (Leaf x) = [x]"
| "leaves (Seq k xs) = concat (map leaves xs)"
| "leaves (Mapping kvs) = concat (map (\<lambda>kv. leaves (snd kv)) kvs)"

text \<open>The shape of a collection: its node kinds and keys, with the leaves erased.\<close>

definition shape :: "'a nested \<Rightarrow> unit nested" where
  "shape t = map_nested (\<lambda>_. ()) t"

text \<open>
  A flat collection is a single leaf, or a sequence or mapping whose members are all
  leaves: \<open>members\<close> gives the direct members of a collection.
\<close>

fun is_Leaf :: "'a nested \<Rightarrow> bool" where
  "is_Leaf (Leaf x) = True"
| "is_Leaf _ = False"

fun members :: "'a nested \<Rightarrow> 'a nested list" where
  "members (Leaf x) = [Leaf x]"
| "members (Seq k xs) = xs"
| "members (Mapping kvs) = map snd kvs"

definition flat :: "'a nested \<Rightarrow> bool" where
  "flat t = list_all is_Leaf (members t)"

subsection \<open>The builtins \<^verbatim>\<open>min\<close> and \<^verbatim>\<open>max\<close> on Python values\<close>

text \<open>
  Python's \<^verbatim>\<open>==\<close>: numbers by value, sequences of one kind element by element, dicts
  key by key whatever the order of insertion; values of different kinds are unequal.
\<close>

function py_eq :: "pyval \<Rightarrow> pyval \<Rightarrow> bool" where
  "py_eq (Leaf a) (Leaf b) = (a = b)"
| "py_eq (Seq k xs) (Seq k' ys) = (k = k' \<and> list_all2 py_eq xs ys)"
| "py_eq (Mapping m) (Mapping m') =
     (length m = length m' \<and>
      list_all (\<lambda>kv. case map_of m' (fst kv) of None \<Rightarrow> False
                                              | Some v' \<Rightarrow> py_eq (snd kv) v') m)"
| "py_eq (Leaf a) (Seq k ys) = False"
| "py_eq (Leaf a) (Mapping m') = False"
| "py_eq (Seq k xs) (Leaf b) = False"
| "py_eq (Seq k xs) (Mapping m') = False"
| "py_eq (Mapping m) (Leaf b) = False"
| "py_eq (Mapping m) (Seq k ys) = False"
  by pat_completeness auto
termination
  apply (relation "measure (\<lambda>(a, b). size a)")
    apply simp
  subgoal for k xs k' ys x y
    by (simp add: less_Suc_eq_le size_list_estimation')
  subgoal for m m' kv v'
    apply (cases kv)
    apply simp
    apply (rule le_imp_less_Suc)
    apply (rule size_list_estimation')
     apply assumption
    apply simp
    done
  done

text \<open>
  Python's \<^verbatim>\<open><\<close> (flag \<open>True\<close>) and \<^verbatim>\<open>>\<close> (flag \<open>False\<close>). Numbers are ordered,
  with \<^verbatim>\<open>inf\<close> above every integer. Two sequences of one kind are compared at the
  first position where they differ by \<^verbatim>\<open>==\<close>, or by their lengths when one is a
  prefix of the other. Every other pair is not ordered: \<open>TypeError\<close>.
\<close>

fun py_cmp :: "bool \<Rightarrow> pyval \<Rightarrow> pyval \<Rightarrow> error + bool"
  and py_cmp_list :: "bool \<Rightarrow> pyval list \<Rightarrow> pyval list \<Rightarrow> error + bool" where
  "py_cmp lt (Leaf a) (Leaf b) = Inr (if lt then a < b else b < a)"
| "py_cmp lt (Seq k xs) (Seq k' ys) =
     (if k = k' then py_cmp_list lt xs ys else Inl TypeError)"
| "py_cmp lt (Mapping m) y = Inl TypeError"
| "py_cmp lt (Leaf a) (Seq k ys) = Inl TypeError"
| "py_cmp lt (Leaf a) (Mapping m') = Inl TypeError"
| "py_cmp lt (Seq k xs) (Leaf b) = Inl TypeError"
| "py_cmp lt (Seq k xs) (Mapping m') = Inl TypeError"
| "py_cmp_list lt [] [] = Inr False"
| "py_cmp_list lt [] (y # ys) = Inr lt"
| "py_cmp_list lt (x # xs) [] = Inr (\<not> lt)"
| "py_cmp_list lt (x # xs) (y # ys) =
     (if py_eq x y then py_cmp_list lt xs ys else py_cmp lt x y)"

text \<open>
  The two reductions of \<^verbatim>\<open>COMPUTE_FUNCS\<close>. The builtin keeps the first item as the
  current best and replaces it by each later item that is smaller (\<^verbatim>\<open>min\<close>) or
  greater (\<^verbatim>\<open>max\<close>); an empty argument raises \<open>ValueError\<close>.
\<close>

datatype compute_func = PyMin | PyMax

fun py_best :: "compute_func \<Rightarrow> pyval \<Rightarrow> pyval list \<Rightarrow> error + pyval" where
  "py_best f cur [] = Inr cur"
| "py_best f cur (x # xs) =
     (case py_cmp (f = PyMin) x cur of
        Inl e \<Rightarrow> Inl e
      | Inr c \<Rightarrow> py_best f (if c then x else cur) xs)"

fun py_builtin :: "compute_func \<Rightarrow> pyval list \<Rightarrow> error + pyval" where
  "py_builtin f [] = Inl ValueError"
| "py_builtin f (x # xs) = py_best f x xs"

subsection \<open>Sources\<close>

text \<open>
  A loader is an external object. The embedding records what the code can observe of
  it: what a fresh iterator over it does at each pull, in order (it yields a batch or
  raises an exception other than \<open>StopIteration\<close>, and after its last event it raises
  \<open>StopIteration\<close>); its \<^verbatim>\<open>__len__\<close>, if it has one; and its \<^verbatim>\<open>dataset\<close> attribute, if
  it has one. Every call of \<^verbatim>\<open>iter\<close> on a loader starts a new iterator at the first
  event.
\<close>

datatype 'b event = Yield 'b | Raise string

datatype dataset = Sized nat | Unsized

record 'b loader =
  batches :: "'b event list"
  len :: "nat option"
  dataset :: "dataset option"

text \<open>
  What a pull can return. A loader returns its batches. A list, tuple or dict is
  iterable as well: iterating a sequence returns its members, iterating a dict its
  keys. \<^verbatim>\<open>CombinedLoader\<close> hands such a container to \<^verbatim>\<open>CycleIterator\<close> when the
  loaders are nested more than one level deep.
\<close>

datatype 'b item =
    Batch 'b
  | Member "'b loader nested"
  | Key key

text \<open>The builtin \<^verbatim>\<open>iter\<close> on a loader or a container: the events still to come.\<close>

fun lift_event :: "'b event \<Rightarrow> 'b item event" where
  "lift_event (Yield b) = Yield (Batch b)"
| "lift_event (Raise e) = Raise e"

fun py_iter :: "'b loader nested \<Rightarrow> 'b item event list" where
  "py_iter (Leaf ld) = map lift_event (batches ld)"
| "py_iter (Seq k xs) = map (\<lambda>x. Yield (Member x)) xs"
| "py_iter (Mapping kvs) = map (\<lambda>kv. Yield (Key (fst kv))) kvs"

text \<open>The builtin \<^verbatim>\<open>next\<close> on such an iterator: the result and the advanced iterator.\<close>

fun py_next :: "'v event list \<Rightarrow> (error + 'v) \<times> 'v event list" where
  "py_next [] = (Inl StopIteration, [])"
| "py_next (Yield v # rest) = (Inr v, rest)"
| "py_next (Raise e # rest) = (Inl (SourceError e), rest)"

subsection \<open>\<^verbatim>\<open>CycleIterator\<close>\<close>

text \<open>
  The fields \<^verbatim>\<open>length\<close>, \<^verbatim>\<open>loader\<close>, \<^verbatim>\<open>_loader_iter\<close> and \<^verbatim>\<open>counter\<close>. The length is
  whatever the caller passed: a number when the caller respects the signature.
\<close>

record 'b CycleIterator =
  ci_length :: pyval
  ci_loader :: "'b loader nested"
  ci_loader_iter :: "'b item event list option"
  ci_counter :: nat

definition CycleIterator_init :: "'b loader nested \<Rightarrow> pyval option \<Rightarrow> 'b CycleIterator" where
  "CycleIterator_init ld n =
     \<lparr>ci_length = (case n of None \<Rightarrow> Leaf \<infinity> | Some l \<Rightarrow> l),
      ci_loader = ld, ci_loader_iter = None, ci_counter = 0\<rparr>"

definition CycleIterator_len :: "'b CycleIterator \<Rightarrow> pyval" where
  "CycleIterator_len c = ci_length c"

text \<open>\<^verbatim>\<open>__iter__\<close> resets the counter, makes a fresh iterator and returns the object.\<close>

definition CycleIterator_iter :: "'b CycleIterator \<Rightarrow> 'b CycleIterator" where
  "CycleIterator_iter c = c\<lparr>ci_counter := 0, ci_loader_iter := Some (py_iter (ci_loader c))\<rparr>"

text \<open>
  \<^verbatim>\<open>__next__\<close>. The comparison \<^verbatim>\<open>self.counter >= self.__len__()\<close> stands before the
  \<^verbatim>\<open>try\<close>: when it raises (\<open>StopIteration\<close>, or \<open>TypeError\<close> for a length that is
  not a number) the counter is unchanged. Inside the \<^verbatim>\<open>try\<close>, the \<^verbatim>\<open>finally\<close> clause
  adds one to the counter on every path, whether a batch is returned or an
  exception leaves the method. Only \<open>StopIteration\<close> is caught; the handler makes a
  fresh iterator and pulls once. Pulling from \<^verbatim>\<open>None\<close> (no \<^verbatim>\<open>__iter__\<close> before) is a
  \<open>TypeError\<close>.
\<close>

definition CycleIterator_next :: "'b CycleIterator \<Rightarrow> (error + 'b item) \<times> 'b CycleIterator" where
  "CycleIterator_next c =
     (case CycleIterator_len c of
        Leaf n \<Rightarrow>
          if n \<le> enat (ci_counter c) then (Inl StopIteration, c)
          else (case ci_loader_iter c of
                  None \<Rightarrow> (Inl TypeError, c\<lparr>ci_counter := ci_counter c + 1\<rparr>)
                | Some it \<Rightarrow>
                    (case py_next it of
                       (Inl StopIteration, it') \<Rightarrow>
                         (case py_next (py_iter (ci_loader c)) of
                            (r, it'') \<Rightarrow>
                              (r, c\<lparr>ci_loader_iter := Some it'',
                                    ci_counter := ci_counter c + 1\<rparr>))
                     | (r, it') \<Rightarrow>
                         (r, c\<lparr>ci_loader_iter := Some it',
                               ci_counter := ci_counter c + 1\<rparr>)))
      | Seq k xs \<Rightarrow> (Inl TypeError, c)
      | Mapping kvs \<Rightarrow> (Inl TypeError, c))"

subsection \<open>The helpers \<^verbatim>\<open>apply_to_collection\<close> and \<^verbatim>\<open>get_len\<close>\<close>

text \<open>
  Modelled from the spec: \<^verbatim>\<open>apply_to_collection\<close> of
  \<^verbatim>\<open>pytorch_lightning.utilities.apply_func\<close>, which the sources import and do not hold.
  The spec's ShapeMap returns a new container of identical shape in which every leaf
  that satisfies the predicate is replaced by the transform of the leaf, recursing
  into sequences and mappings of any depth. In every call of the embedded code the
  leaves are the loaders, datasets or iterators the predicate names, and the kinds
  listed as \<^verbatim>\<open>wrong_dtype\<close> are the sequences and mappings themselves, which are never
  leaves here. This is the helper for a transform without effect.
\<close>

definition apply_to_collection :: "('a \<Rightarrow> 'c) \<Rightarrow> 'a nested \<Rightarrow> 'c nested" where
  "apply_to_collection f data = map_nested f data"

text \<open>
  Modelled from the spec: the same \<^verbatim>\<open>apply_to_collection\<close>, for a transform that
  changes the leaf it is applied to and may raise (\<^verbatim>\<open>next\<close> on an iterator). The
  leaves are visited in order, members of a sequence from left to right and values
  of a mapping in the order of its keys; the first exception leaves the traversal,
  so the leaves after it are not visited, and no container is built.
\<close>

fun apply_to_collection_st ::
    "('s \<Rightarrow> (error + 'v) \<times> 's) \<Rightarrow> 's nested \<Rightarrow> (error + 'v nested) \<times> 's nested"
  and apply_seq ::
    "('s \<Rightarrow> (error + 'v) \<times> 's) \<Rightarrow> 's nested list \<Rightarrow> (error + 'v nested list) \<times> 's nested list"
  and apply_items ::
    "('s \<Rightarrow> (error + 'v) \<times> 's) \<Rightarrow> (key \<times> 's nested) list
       \<Rightarrow> (error + (key \<times> 'v nested) list) \<times> (key \<times> 's nested) list" where
  "apply_to_collection_st f (Leaf s) =
     (case f s of
        (Inl e, s') \<Rightarrow> (Inl e, Leaf s')
      | (Inr v, s') \<Rightarrow> (Inr (Leaf v), Leaf s'))"
| "apply_to_collection_st f (Seq k xs) =
     (case apply_seq f xs of
        (Inl e, xs') \<Rightarrow> (Inl e, Seq k xs')
      | (Inr vs, xs') \<Rightarrow> (Inr (Seq k vs), Seq k xs'))"
| "apply_to_collection_st f (Mapping kvs) =
     (case apply_items f kvs of
        (Inl e, kvs') \<Rightarrow> (Inl e, Mapping kvs')
      | (Inr kws, kvs') \<Rightarrow> (Inr (Mapping kws), Mapping kvs'))"
| "apply_seq f [] = (Inr [], [])"
| "apply_seq f (x # xs) =
     (case apply_to_collection_st f x of
        (Inl e, x') \<Rightarrow> (Inl e, x' # xs)
      | (Inr v, x') \<Rightarrow>
          (case apply_seq f xs of
             (Inl e, xs') \<Rightarrow> (Inl e, x' # xs')
           | (Inr vs, xs') \<Rightarrow> (Inr (v # vs), x' # xs')))"
| "apply_items f [] = (Inr [], [])"
| "apply_items f (kv # kvs) =
     (case apply_to_collection_st f (snd kv) of
        (Inl e, x') \<Rightarrow> (Inl e, (fst kv, x') # kvs)
      | (Inr v, x') \<Rightarrow>
          (case apply_items f kvs of
             (Inl e, kvs') \<Rightarrow> (Inl e, (fst kv, x') # kvs')
           | (Inr kws, kvs') \<Rightarrow> (Inr ((fst kv, v) # kws), (fst kv, x') # kvs')))"

text \<open>
  Modelled from the spec: \<^verbatim>\<open>get_len\<close> of \<^verbatim>\<open>pytorch_lightning.utilities.data\<close>, which
  the sources import and do not hold. The spec's \<^verbatim>\<open>lengthOf\<close> returns the source's
  count if it exposes one, else unbounded, and never raises. It is applied to
  loaders, to the \<^verbatim>\<open>dataset\<close> attributes of loaders (\<^verbatim>\<open>None\<close> when a loader has none)
  and to the \<^verbatim>\<open>CycleIterator\<close>s that wrap loaders, whose count is their \<^verbatim>\<open>length\<close> when
  that is a number.
\<close>

definition get_len :: "'b loader \<Rightarrow> enat" where
  "get_len ld = (case len ld of None \<Rightarrow> \<infinity> | Some n \<Rightarrow> enat n)"

fun get_len_dataset :: "dataset option \<Rightarrow> enat" where
  "get_len_dataset None = \<infinity>"
| "get_len_dataset (Some (Sized n)) = enat n"
| "get_len_dataset (Some Unsized) = \<infinity>"

definition get_len_cycle :: "'b CycleIterator \<Rightarrow> enat" where
  "get_len_cycle c = (case CycleIterator_len c of Leaf n \<Rightarrow> n | Seq k xs \<Rightarrow> \<infinity> | Mapping kvs \<Rightarrow> \<infinity>)"

subsection \<open>\<^verbatim>\<open>CombinedDataset\<close>\<close>

definition COMPUTE_FUNCS :: "string \<Rightarrow> compute_func option" where
  "COMPUTE_FUNCS = map_of [(''min_size'', PyMin), (''max_size_cycle'', PyMax)]"

record CombinedDataset =
  cd_datasets :: "dataset option nested"
  cd_mode :: string

definition CombinedDataset_init :: "dataset option nested \<Rightarrow> string \<Rightarrow> error + CombinedDataset" where
  "CombinedDataset_init datasets mode =
     (if COMPUTE_FUNCS mode = None then Inl MisconfigurationException
      else Inr \<lparr>cd_datasets = datasets, cd_mode = mode\<rparr>)"

definition calc_num_data :: "dataset option nested \<Rightarrow> string \<Rightarrow> error + pyval" where
  "calc_num_data datasets mode =
     (case COMPUTE_FUNCS mode of
        None \<Rightarrow> Inl MisconfigurationException
      | Some compute_func \<Rightarrow>
          (case apply_to_collection get_len_dataset datasets of
             Leaf n \<Rightarrow> Inr (Leaf n)
           | Mapping kvs \<Rightarrow> py_builtin compute_func (map snd kvs)
           | Seq k xs \<Rightarrow> py_builtin compute_func xs))"

definition max_len :: "CombinedDataset \<Rightarrow> error + pyval" where
  "max_len d = calc_num_data (cd_datasets d) ''max_size_cycle''"

definition min_len :: "CombinedDataset \<Rightarrow> error + pyval" where
  "min_len d = calc_num_data (cd_datasets d) ''min_size''"

definition CombinedDataset_len :: "CombinedDataset \<Rightarrow> error + pyval" where
  "CombinedDataset_len d = calc_num_data (cd_datasets d) (cd_mode d)"

subsection \<open>\<^verbatim>\<open>CombinedLoader\<close>\<close>

text \<open>
  After construction a leaf of \<^verbatim>\<open>self.loaders\<close> is a loader as it was passed, or a
  \<^verbatim>\<open>CycleIterator\<close> made by \<^verbatim>\<open>_wrap_loaders_max_size_cycle\<close>.
\<close>

datatype 'b source = Loader "'b loader" | Cycle "'b CycleIterator"

fun get_len_source :: "'b source \<Rightarrow> enat" where
  "get_len_source (Loader ld) = get_len ld"
| "get_len_source (Cycle c) = get_len_cycle c"

record 'b CombinedLoader =
  cl_loaders :: "'b source nested"
  cl_dataset :: CombinedDataset
  cl_mode :: string

definition SUPPORTED_MODES :: "string list" where
  "SUPPORTED_MODES = [''min_size'', ''max_size_cycle'']"

text \<open>
  What this code does to a loader before it pulls from it: it reads the \<^verbatim>\<open>dataset\<close>
  attribute (\<^verbatim>\<open>getattr(loader, 'dataset', None)\<close>), it asks for the length (\<^verbatim>\<open>get_len\<close>),
  and it makes an iterator (\<^verbatim>\<open>iter\<close>). Each operation is given with the record of the
  access it makes; the constructor, the methods it calls and the creation of the
  iterators of a session are written with these operations, so the accesses they
  return are the accesses they make.
\<close>

datatype 'b touch = GetDataset "'b loader" | GetLen "'b loader" | MakeIter "'b loader"

fun is_GetDataset :: "'b touch \<Rightarrow> bool" where
  "is_GetDataset (GetDataset ld) = True"
| "is_GetDataset (GetLen ld) = False"
| "is_GetDataset (MakeIter ld) = False"

definition getattr_dataset :: "'b loader \<Rightarrow> 'b touch list \<times> dataset option" where
  "getattr_dataset ld = ([GetDataset ld], dataset ld)"

definition get_len_touch :: "'b loader \<Rightarrow> 'b touch list \<times> enat" where
  "get_len_touch ld = ([GetLen ld], get_len ld)"

text \<open>
  Modelled from the spec: the same \<^verbatim>\<open>apply_to_collection\<close>, for a transform whose
  accesses are recorded. The leaves are visited in order, and the records of the
  visits are put one after the other.
\<close>

fun apply_to_collection_log :: "('a \<Rightarrow> 't list \<times> 'c) \<Rightarrow> 'a nested \<Rightarrow> 't list \<times> 'c nested"
  and apply_seq_log :: "('a \<Rightarrow> 't list \<times> 'c) \<Rightarrow> 'a nested list \<Rightarrow> 't list \<times> 'c nested list"
  and apply_items_log ::
    "('a \<Rightarrow> 't list \<times> 'c) \<Rightarrow> (key \<times> 'a nested) list \<Rightarrow> 't list \<times> (key \<times> 'c nested) list" where
  "apply_to_collection_log f (Leaf x) = (case f x of (t, v) \<Rightarrow> (t, Leaf v))"
| "apply_to_collection_log f (Seq k xs) =
     (case apply_seq_log f xs of (t, vs) \<Rightarrow> (t, Seq k vs))"
| "apply_to_collection_log f (Mapping kvs) =
     (case apply_items_log f kvs of (t, kws) \<Rightarrow> (t, Mapping kws))"
| "apply_seq_log f [] = ([], [])"
| "apply_seq_log f (x # xs) =
     (case apply_to_collection_log f x of
        (t, v) \<Rightarrow> (case apply_seq_log f xs of (ts, vs) \<Rightarrow> (t @ ts, v # vs)))"
| "apply_items_log f [] = ([], [])"
| "apply_items_log f (kv # kvs) =
     (case apply_to_collection_log f (snd kv) of
        (t, v) \<Rightarrow> (case apply_items_log f kvs of (ts, kws) \<Rightarrow> (t @ ts, (fst kv, v) # kws)))"

text \<open>
  \<^verbatim>\<open>_wrap_loaders_max_size_cycle\<close>, as a function from the old \<^verbatim>\<open>self.loaders\<close> to the
  new one, with the accesses it makes. The members of a mapping or sequence are
  wrapped as they are, whether they are loaders or containers; a single loader
  stays as it is.
\<close>

definition wrap_loaders_max_size_cycle ::
    "'b loader nested \<Rightarrow> 'b touch list \<times> (error + 'b source nested)" where
  "wrap_loaders_max_size_cycle loaders =
     (case apply_to_collection_log get_len_touch loaders of
        (touched, all_lengths) \<Rightarrow>
          (touched,
           case (case all_lengths of
                   Leaf n \<Rightarrow> Inr (Leaf n)
                 | Mapping kvs \<Rightarrow> py_builtin PyMax (map snd kvs)
                 | Seq k xs \<Rightarrow> py_builtin PyMax xs) of
             Inl e \<Rightarrow> Inl e
           | Inr lgth \<Rightarrow>
               (case loaders of
                  Mapping kvs \<Rightarrow>
                    Inr (Mapping (map (\<lambda>kv. (fst kv,
                           Leaf (Cycle (CycleIterator_init (snd kv) (Some lgth))))) kvs))
                | Seq k xs \<Rightarrow>
                    Inr (Seq k (map (\<lambda>v. Leaf (Cycle (CycleIterator_init v (Some lgth)))) xs))
                | Leaf ld \<Rightarrow> Inr (Leaf (Loader ld)))))"

text \<open>
  \<^verbatim>\<open>__init__\<close>, with the accesses it makes before it returns or raises, in order.
  The datasets are collected first; \<^verbatim>\<open>CombinedDataset.__init__\<close> and the test of the
  mode come after that, and the loaders are wrapped last.
\<close>

definition CombinedLoader_init ::
    "'b loader nested \<Rightarrow> string \<Rightarrow> 'b touch list \<times> (error + 'b CombinedLoader)" where
  "CombinedLoader_init loaders mode =
     (case apply_to_collection_log getattr_dataset loaders of
        (touched, datasets) \<Rightarrow>
          (case CombinedDataset_init datasets mode of
             Inl e \<Rightarrow> (touched, Inl e)
           | Inr ds \<Rightarrow>
               if mode \<notin> set SUPPORTED_MODES then (touched, Inl MisconfigurationException)
               else if mode = ''max_size_cycle'' then
                 (case wrap_loaders_max_size_cycle loaders of
                    (touched', Inl e) \<Rightarrow> (touched @ touched', Inl e)
                  | (touched', Inr wrapped) \<Rightarrow>
                      (touched @ touched',
                       Inr \<lparr>cl_loaders = wrapped, cl_dataset = ds, cl_mode = mode\<rparr>))
               else
                 (touched,
                  Inr \<lparr>cl_loaders = apply_to_collection Loader loaders,
                       cl_dataset = ds, cl_mode = mode\<rparr>)))"

definition calc_num_batches :: "'b source nested \<Rightarrow> error + pyval" where
  "calc_num_batches loaders =
     (case apply_to_collection get_len_source loaders of
        Leaf n \<Rightarrow> Inr (Leaf n)
      | Mapping kvs \<Rightarrow> py_builtin PyMin (map snd kvs)
      | Seq k xs \<Rightarrow> py_builtin PyMin xs)"

text \<open>
  The method \<^verbatim>\<open>__len__\<close>, which returns what \<^verbatim>\<open>_calc_num_batches\<close> returns, whether
  or not that is a number.
\<close>

definition CombinedLoader_len :: "'b CombinedLoader \<Rightarrow> error + pyval" where
  "CombinedLoader_len cl = calc_num_batches (cl_loaders cl)"

subsection \<open>\<^verbatim>\<open>CombinedLoaderIterator\<close>\<close>

text \<open>
  The iterator at a leaf: the iterator of a loader, or the \<^verbatim>\<open>CycleIterator\<close> itself,
  which \<^verbatim>\<open>iter\<close> resets and returns.
\<close>

datatype 'b leaf_iter = LoaderIter "'b item event list" | CycleIter "'b CycleIterator"

fun source_iter :: "'b source \<Rightarrow> 'b leaf_iter" where
  "source_iter (Loader ld) = LoaderIter (py_iter (Leaf ld))"
| "source_iter (Cycle c) = CycleIter (CycleIterator_iter c)"

fun leaf_next :: "'b leaf_iter \<Rightarrow> (error + 'b item) \<times> 'b leaf_iter" where
  "leaf_next (LoaderIter it) = (case py_next it of (r, it') \<Rightarrow> (r, LoaderIter it'))"
| "leaf_next (CycleIter c) = (case CycleIterator_next c of (r, c') \<Rightarrow> (r, CycleIter c'))"

record 'b CombinedLoaderIterator =
  cli_loaders :: "'b source nested"
  cli_loader_iters :: "'b leaf_iter nested option"

definition CombinedLoader_iter :: "'b CombinedLoader \<Rightarrow> 'b CombinedLoaderIterator" where
  "CombinedLoader_iter cl = \<lparr>cli_loaders = cl_loaders cl, cli_loader_iters = None\<rparr>"

definition create_loader_iters :: "'b source nested \<Rightarrow> 'b leaf_iter nested" where
  "create_loader_iters loaders = apply_to_collection source_iter loaders"

text \<open>
  \<^verbatim>\<open>create_loader_iters\<close> with the accesses it makes: \<^verbatim>\<open>iter\<close> on every leaf. A
  \<^verbatim>\<open>CycleIterator\<close> passes \<^verbatim>\<open>iter\<close> on to what it wraps.
\<close>

fun source_iter_touch :: "'b source \<Rightarrow> 'b touch list \<times> 'b leaf_iter" where
  "source_iter_touch (Loader ld) = ([MakeIter ld], source_iter (Loader ld))"
| "source_iter_touch (Cycle c) =
     (case ci_loader c of Leaf ld \<Rightarrow> [MakeIter ld] | _ \<Rightarrow> [], source_iter (Cycle c))"

definition create_loader_iters_log ::
    "'b source nested \<Rightarrow> 'b touch list \<times> 'b leaf_iter nested" where
  "create_loader_iters_log loaders = apply_to_collection_log source_iter_touch loaders"

definition request_next_batch ::
    "'b leaf_iter nested \<Rightarrow> (error + 'b item nested) \<times> 'b leaf_iter nested" where
  "request_next_batch loader_iters = apply_to_collection_st leaf_next loader_iters"

text \<open>The property \<^verbatim>\<open>loader_iters\<close>: the iterators, made at the first use.\<close>

definition loader_iters :: "'b CombinedLoaderIterator \<Rightarrow> 'b leaf_iter nested" where
  "loader_iters s =
     (case cli_loader_iters s of
        None \<Rightarrow> create_loader_iters (cli_loaders s)
      | Some its \<Rightarrow> its)"

definition CombinedLoaderIterator_next ::
    "'b CombinedLoaderIterator \<Rightarrow> (error + 'b item nested) \<times> 'b CombinedLoaderIterator" where
  "CombinedLoaderIterator_next s =
     (case request_next_batch (loader_iters s) of
        (r, its') \<Rightarrow> (r, s\<lparr>cli_loader_iters := Some its'\<rparr>))"

text \<open>
  A \<^verbatim>\<open>for\<close> loop over a session that is cut off after \<open>n\<close> rounds: the elements it
  received, and the exception that ended it (\<open>None\<close> when the loop was cut off).
\<close>

fun for_loop ::
    "nat \<Rightarrow> 'b CombinedLoaderIterator \<Rightarrow> 'b item nested list \<times> error option" where
  "for_loop 0 s = ([], None)"
| "for_loop (Suc n) s =
     (case CombinedLoaderIterator_next s of
        (Inl e, s') \<Rightarrow> ([], Some e)
      | (Inr b, s') \<Rightarrow> (case for_loop n s' of (bs, r) \<Rightarrow> (b # bs, r)))"

text \<open>
  Client code: \<^verbatim>\<open>len(CombinedLoader(loaders, mode))\<close>, and a \<^verbatim>\<open>for\<close> loop over
  \<^verbatim>\<open>CombinedLoader(loaders, mode)\<close> cut off after \<open>fuel\<close> rounds. An exception of the
  constructor is the result \<open>Inl\<close>.
\<close>

definition combined_len :: "'b loader nested \<Rightarrow> string \<Rightarrow> error + pyval" where
  "combined_len loaders mode =
     (case snd (CombinedLoader_init loaders mode) of
        Inl e \<Rightarrow> Inl e
      | Inr cl \<Rightarrow> CombinedLoader_len cl)"

definition combined_run ::
    "nat \<Rightarrow> 'b loader nested \<Rightarrow> string \<Rightarrow> error + 'b item nested list \<times> error option" where
  "combined_run fuel loaders mode =
     (case snd (CombinedLoader_init loaders mode) of
        Inl e \<Rightarrow> Inl e
      | Inr cl \<Rightarrow> Inr (for_loop fuel (CombinedLoader_iter cl)))"


text \<open>The results of \<open>n\<close> successive calls of \<^verbatim>\<open>CycleIterator.__next__\<close>.\<close>

fun calls :: "nat \<Rightarrow> 'b CycleIterator \<Rightarrow> (error + 'b item) list" where
  "calls 0 c = []"
| "calls (Suc n) c = (case CycleIterator_next c of (r, c') \<Rightarrow> r # calls n c')"

subsection \<open>Notions used in the statements\<close>

text \<open>How many of a list of results are returned values and not exceptions.\<close>

definition returned :: "(error + 'v) list \<Rightarrow> nat" where
  "returned rs = length (filter (\<lambda>r. \<not> isl r) rs)"

text \<open>
  The exception of the first pull that raises, when the given iterators are pulled
  in order; \<open>None\<close> when every pull returns.
\<close>

fun first_error :: "('s \<Rightarrow> (error + 'v) \<times> 's) \<Rightarrow> 's list \<Rightarrow> error option" where
  "first_error f [] = None"
| "first_error f (x # xs) = (case fst (f x) of Inl e \<Rightarrow> Some e | Inr v \<Rightarrow> first_error f xs)"

text \<open>
  A loader yields exactly its declared number of elements: it has a \<^verbatim>\<open>__len__\<close>, a
  fresh iterator yields that many batches, and it raises nothing but the final
  \<open>StopIteration\<close>.
\<close>

fun is_Yield :: "'b event \<Rightarrow> bool" where
  "is_Yield (Yield b) = True"
| "is_Yield (Raise e) = False"

definition exact :: "'b loader \<Rightarrow> bool" where
  "exact ld = (len ld = Some (length (batches ld)) \<and> list_all is_Yield (batches ld))"

text \<open>The lengths of the shortest and of the longest leaf of a container.\<close>

definition shortest :: "'b loader nested \<Rightarrow> nat" where
  "shortest loaders = Min (set (map (\<lambda>ld. length (batches ld)) (leaves loaders)))"

definition longest :: "'b loader nested \<Rightarrow> nat" where
  "longest loaders = Max (set (map (\<lambda>ld. length (batches ld)) (leaves loaders)))"

text \<open>What pull number \<open>i\<close> (from 0) of a fresh iterator over a loader returns.\<close>

definition batch_at :: "'b loader \<Rightarrow> nat \<Rightarrow> 'b item" where
  "batch_at ld i = projr (fst (py_next (drop i (py_iter (Leaf ld)))))"

text \<open>
  The \<^verbatim>\<open>CycleIterator\<close> with budget \<open>B\<close> around a loader after \<^verbatim>\<open>__iter__\<close> and \<open>k\<close>
  returned pulls: the inner iterator has been restarted whenever it was exhausted.
\<close>

definition cycle_at :: "enat \<Rightarrow> 'b loader \<Rightarrow> nat \<Rightarrow> 'b CycleIterator" where
  "cycle_at B ld k =
     \<lparr>ci_length = Leaf B, ci_loader = Leaf ld,
      ci_loader_iter = Some (drop (if k = 0 then 0 else Suc ((k - 1) mod length (batches ld)))
                               (py_iter (Leaf ld))),
      ci_counter = k\<rparr>"


text \<open>
  The loaders of the example in the docstring of \<^verbatim>\<open>CombinedLoader\<close>:
  \<^verbatim>\<open>{'a': DataLoader(range(6), batch_size=4), 'b': DataLoader(range(15), batch_size=5)}\<close>.
\<close>

definition loader_a :: "nat list loader" where
  "loader_a = \<lparr>batches = [Yield [0, 1, 2, 3], Yield [4, 5]], len = Some 2,
                dataset = Some (Sized 6)\<rparr>"

definition loader_b :: "nat list loader" where
  "loader_b = \<lparr>batches = [Yield [0, 1, 2, 3, 4], Yield [5, 6, 7, 8, 9],
                           Yield [10, 11, 12, 13, 14]],
                len = Some 3, dataset = Some (Sized 15)\<rparr>"

definition doc_loaders :: "nat list loader nested" where
  "doc_loaders = Mapping [(''a'', Leaf loader_a), (''b'', Leaf loader_b)]"

text \<open>A loader without batches, and a loader whose second pull raises.\<close>

definition loader_empty :: "nat list loader" where
  "loader_empty = \<lparr>batches = [], len = Some 0, dataset = None\<rparr>"

definition loader_faulty :: "nat list loader" where
  "loader_faulty = \<lparr>batches = [Yield [0], Raise ''io''], len = Some 2, dataset = None\<rparr>"

section \<open>Properties\<close>

subsection \<open>Traversals\<close>

lemma first_error_append:
  "first_error f (xs @ ys) = (case first_error f xs of Some e \<Rightarrow> Some e | None \<Rightarrow> first_error f ys)"
  by (induction xs) (auto split: sum.splits)

lemma first_error_None:
  "(\<forall>x \<in> set xs. \<exists>v. fst (f x) = Inr v) \<Longrightarrow> first_error f xs = None"
  by (induction xs) auto

lemma first_error_Some:
  "\<exists>x \<in> set xs. fst (f x) = Inl e \<Longrightarrow> \<forall>x \<in> set xs. fst (f x) = Inl e \<or> (\<exists>v. fst (f x) = Inr v)
     \<Longrightarrow> first_error f xs = Some e"
  by (induction xs) (auto split: sum.splits)

lemma first_error_split:
  "list_all (\<lambda>y. \<not> isl (fst (f y))) before \<Longrightarrow> fst (f x) = Inl e \<Longrightarrow>
     first_error f (before @ x # after) = Some e"
  by (induction before) (auto split: sum.splits)

lemma first_error_None_iff:
  "first_error f xs = None \<longleftrightarrow> list_all (\<lambda>y. \<not> isl (fst (f y))) xs"
  by (induction xs) (auto split: sum.splits)

lemma leaves_map_nested: "leaves (map_nested g t) = map g (leaves t)"
  by (induction t) (auto simp: map_concat comp_def intro!: arg_cong[where f=concat])

lemma shape_map_nested: "shape (map_nested g t) = shape t"
  by (simp add: shape_def nested.map_comp comp_def)


text \<open>
  The result of a traversal is the exception of the first pull that raises, or the
  container of the values of all pulls; the iterators keep their shape either way.
\<close>

lemma apply_st_result:
  fixes f :: "'s \<Rightarrow> (error + 'v) \<times> 's"
  shows "fst (apply_to_collection_st f t) =
           (case first_error f (leaves t) of
              Some e \<Rightarrow> Inl e
            | None \<Rightarrow> Inr (map_nested (\<lambda>s. projr (fst (f s))) t))"
    and "fst (apply_seq f xs) =
           (case first_error f (concat (map leaves xs)) of
              Some e \<Rightarrow> Inl e
            | None \<Rightarrow> Inr (map (map_nested (\<lambda>s. projr (fst (f s)))) xs))"
    and "fst (apply_items f kvs) =
           (case first_error f (concat (map (\<lambda>kv. leaves (snd kv)) kvs)) of
              Some e \<Rightarrow> Inl e
            | None \<Rightarrow> Inr (map (map_prod id (map_nested (\<lambda>s. projr (fst (f s))))) kvs))"
proof (induction f t and f xs and f kvs rule: apply_to_collection_st_apply_seq_apply_items.induct)
  case (5 f x xs)
  then show ?case by (auto split: prod.splits sum.splits option.splits simp: first_error_append)
next
  case (7 f kv kvs)
  then show ?case by (cases kv) (auto split: prod.splits sum.splits option.splits simp: first_error_append)
qed (auto split: prod.splits sum.splits option.splits)


lemma apply_st_ok:
  fixes f :: "'s \<Rightarrow> (error + 'v) \<times> 's"
  shows "first_error f (leaves t) = None \<Longrightarrow>
           apply_to_collection_st f t =
             (Inr (map_nested (\<lambda>s. projr (fst (f s))) t), map_nested (\<lambda>s. snd (f s)) t)"
    and "first_error f (concat (map leaves xs)) = None \<Longrightarrow>
           apply_seq f xs =
             (Inr (map (map_nested (\<lambda>s. projr (fst (f s)))) xs),
              map (map_nested (\<lambda>s. snd (f s))) xs)"
    and "first_error f (concat (map (\<lambda>kv. leaves (snd kv)) kvs)) = None \<Longrightarrow>
           apply_items f kvs =
             (Inr (map (map_prod id (map_nested (\<lambda>s. projr (fst (f s))))) kvs),
              map (map_prod id (map_nested (\<lambda>s. snd (f s)))) kvs)"
proof (induction f t and f xs and f kvs rule: apply_to_collection_st_apply_seq_apply_items.induct)
  case (5 f x xs)
  then show ?case by (auto split: prod.splits sum.splits option.splits simp: first_error_append)
next
  case (7 f kv kvs)
  then show ?case by (cases kv) (auto split: prod.splits sum.splits option.splits simp: first_error_append)
qed (auto split: prod.splits sum.splits option.splits)

lemma apply_st_labelled:
  fixes f :: "'s \<Rightarrow> (error + 'v) \<times> 's"
  assumes "\<forall>l \<in> set (leaves t). f (g l) = (Inr (v l), g' l)"
  shows "apply_to_collection_st f (map_nested g t) = (Inr (map_nested v t), map_nested g' t)"
proof -
  have "first_error f (leaves (map_nested g t)) = None"
    using assms by (intro first_error_None) (auto simp: leaves_map_nested)
  then have "apply_to_collection_st f (map_nested g t) =
             (Inr (map_nested (\<lambda>s. projr (fst (f s))) (map_nested g t)),
              map_nested (\<lambda>s. snd (f s)) (map_nested g t))"
    by (rule apply_st_ok)
  moreover have "set_nested t = set (leaves t)"
    by (induction t) auto
  then have "map_nested (\<lambda>s. projr (fst (f s))) (map_nested g t) = map_nested v t"
    "map_nested (\<lambda>s. snd (f s)) (map_nested g t) = map_nested g' t"
    using assms by (auto simp: nested.map_comp intro!: nested.map_cong)
  ultimately show ?thesis by simp
qed

lemma apply_st_labelled_fail:
  fixes f :: "'s \<Rightarrow> (error + 'v) \<times> 's"
  assumes "\<exists>l \<in> set (leaves t). fst (f (g l)) = Inl e"
    and "\<forall>l \<in> set (leaves t). fst (f (g l)) = Inl e \<or> (\<exists>v. fst (f (g l)) = Inr v)"
  shows "fst (apply_to_collection_st f (map_nested g t)) = Inl e"
proof -
  have "first_error f (leaves (map_nested g t)) = Some e"
    using assms by (intro first_error_Some) (auto simp: leaves_map_nested)
  then show ?thesis by (simp add: apply_st_result)
qed

text \<open>The recorded traversal visits the leaves in order and returns what the plain one does.\<close>

lemma apply_log_eq:
  fixes f :: "'a \<Rightarrow> 't list \<times> 'c"
  shows "apply_to_collection_log f t =
           (concat (map (\<lambda>x. fst (f x)) (leaves t)), map_nested (\<lambda>x. snd (f x)) t)"
    and "apply_seq_log f xs =
           (concat (map (\<lambda>x. fst (f x)) (concat (map leaves xs))),
            map (map_nested (\<lambda>x. snd (f x))) xs)"
    and "apply_items_log f kvs =
           (concat (map (\<lambda>x. fst (f x)) (concat (map (\<lambda>kv. leaves (snd kv)) kvs))),
            map (map_prod id (map_nested (\<lambda>x. snd (f x)))) kvs)"
proof (induction f t and f xs and f kvs rule: apply_to_collection_log_apply_seq_log_apply_items_log.induct)
  case (7 f kv kvs)
  then show ?case by (cases kv) (auto split: prod.splits)
qed (auto split: prod.splits)

subsection \<open>The reductions on numbers\<close>

lemma COMPUTE_FUNCS_simps:
  "COMPUTE_FUNCS ''min_size'' = Some PyMin"
  "COMPUTE_FUNCS ''max_size_cycle'' = Some PyMax"
  "COMPUTE_FUNCS m = None \<longleftrightarrow> m \<notin> set SUPPORTED_MODES"
  by (auto simp: COMPUTE_FUNCS_def SUPPORTED_MODES_def)

lemma py_best_numbers:
  "py_best f (Leaf a) (map Leaf ns) = Inr (Leaf (fold (if f = PyMin then min else max) ns a))"
  by (induction ns arbitrary: a) (auto simp: min_def max_def)

lemma py_builtin_numbers:
  assumes "ns \<noteq> []"
  shows "py_builtin PyMin (map Leaf ns) = Inr (Leaf (Min (set ns)))"
    and "py_builtin PyMax (map Leaf ns) = Inr (Leaf (Max (set ns)))"
proof -
  obtain a as where ns: "ns = a # as" using assms by (cases ns) auto
  show "py_builtin PyMin (map Leaf ns) = Inr (Leaf (Min (set ns)))"
    unfolding ns using Min.set_eq_fold[of a as] by (simp add: py_best_numbers)
  show "py_builtin PyMax (map Leaf ns) = Inr (Leaf (Max (set ns)))"
    unfolding ns using Max.set_eq_fold[of a as] by (simp add: py_best_numbers)
qed

lemma flat_members:
  assumes "flat t"
  shows "members (map_nested g t) = map (\<lambda>l. Leaf (g l)) (leaves t)"
proof -
  have *: "list_all is_Leaf xs \<Longrightarrow> map (map_nested g) xs = map (\<lambda>l. Leaf (g l)) (concat (map leaves xs))" for xs :: "'a nested list"
  proof (induction xs)
    case Nil then show ?case by simp
  next
    case (Cons x xs) then show ?case by (cases x) auto
  qed
  show ?thesis
  proof (cases t)
    case (Leaf x) then show ?thesis by simp
  next
    case (Seq k xs) then show ?thesis using assms * by (simp add: flat_def)
  next
    case (Mapping kvs)
    then have "list_all is_Leaf (map snd kvs)" using assms by (simp add: flat_def)
    from *[OF this] show ?thesis using Mapping by (simp add: comp_def)
  qed
qed

lemma reduce_flat:
  assumes "flat t" "leaves t \<noteq> []"
  shows "(case map_nested g t of
            Leaf n \<Rightarrow> Inr (Leaf n)
          | Mapping kvs \<Rightarrow> py_builtin PyMin (map snd kvs)
          | Seq k xs \<Rightarrow> py_builtin PyMin xs) = Inr (Leaf (Min (set (map g (leaves t)))))"
    and "(case map_nested g t of
            Leaf n \<Rightarrow> Inr (Leaf n)
          | Mapping kvs \<Rightarrow> py_builtin PyMax (map snd kvs)
          | Seq k xs \<Rightarrow> py_builtin PyMax xs) = Inr (Leaf (Max (set (map g (leaves t)))))"
proof -
  have m: "members (map_nested g t) = map Leaf (map g (leaves t))"
    by (simp add: flat_members[OF assms(1)] comp_def)
  have ne: "map g (leaves t) \<noteq> []" using assms(2) by simp
  show "(case map_nested g t of
            Leaf n \<Rightarrow> Inr (Leaf n)
          | Mapping kvs \<Rightarrow> py_builtin PyMin (map snd kvs)
          | Seq k xs \<Rightarrow> py_builtin PyMin xs) = Inr (Leaf (Min (set (map g (leaves t)))))"
  proof (cases t)
    case (Leaf x) then show ?thesis by simp
  next
    case (Seq k xs)
    then show ?thesis using m py_builtin_numbers(1)[OF ne] by simp
  next
    case (Mapping kvs)
    then show ?thesis using m py_builtin_numbers(1)[OF ne] by (simp add: comp_def)
  qed
  show "(case map_nested g t of
            Leaf n \<Rightarrow> Inr (Leaf n)
          | Mapping kvs \<Rightarrow> py_builtin PyMax (map snd kvs)
          | Seq k xs \<Rightarrow> py_builtin PyMax xs) = Inr (Leaf (Max (set (map g (leaves t)))))"
  proof (cases t)
    case (Leaf x) then show ?thesis by simp
  next
    case (Seq k xs)
    then show ?thesis using m py_builtin_numbers(2)[OF ne] by simp
  next
    case (Mapping kvs)
    then show ?thesis using m py_builtin_numbers(2)[OF ne] by (simp add: comp_def)
  qed
qed




lemma Min_enat: "ls \<noteq> [] \<Longrightarrow> Min (set (map (\<lambda>x. enat (g x)) ls)) = enat (Min (set (map g ls)))"
  using mono_Min_commute[of enat "set (map g ls)"] by (simp add: image_image monoI)

lemma Max_enat: "ls \<noteq> [] \<Longrightarrow> Max (set (map (\<lambda>x. enat (g x)) ls)) = enat (Max (set (map g ls)))"
  using mono_Max_commute[of enat "set (map g ls)"] by (simp add: image_image monoI)

lemma get_len_exact: "exact ld \<Longrightarrow> get_len ld = enat (length (batches ld))"
  by (simp add: exact_def get_len_def)

lemma exact_lengths:
  assumes "\<forall>ld \<in> set (leaves loaders). exact ld" "leaves loaders \<noteq> []"
  shows "Min (set (map get_len (leaves loaders))) = enat (shortest loaders)"
    and "Max (set (map get_len (leaves loaders))) = enat (longest loaders)"
proof -
  have "map get_len (leaves loaders) = map (\<lambda>ld. enat (length (batches ld))) (leaves loaders)"
    using assms(1) by (simp add: get_len_exact)
  then show "Min (set (map get_len (leaves loaders))) = enat (shortest loaders)"
    "Max (set (map get_len (leaves loaders))) = enat (longest loaders)"
    using Min_enat[OF assms(2)] Max_enat[OF assms(2)] by (simp_all add: shortest_def longest_def)
qed

subsection \<open>Pulling from a loader and from a \<^verbatim>\<open>CycleIterator\<close>\<close>

lemma py_next_drop_Yield:
  assumes "list_all is_Yield (batches ld)" "i < length (batches ld)"
  shows "py_next (drop i (py_iter (Leaf ld))) = (Inr (batch_at ld i), drop (Suc i) (py_iter (Leaf ld)))"
proof -
  let ?evs = "py_iter (Leaf ld)"
  have i: "i < length ?evs" using assms by simp
  have "is_Yield (batches ld ! i)" using assms by (simp add: list_all_length)
  then obtain b where b: "batches ld ! i = Yield b" by (cases "batches ld ! i") auto
  have "?evs ! i = Yield (Batch b)" using assms b by simp
  then have d: "drop i ?evs = Yield (Batch b) # drop (Suc i) ?evs"
    using Cons_nth_drop_Suc[OF i] by simp
  show ?thesis unfolding batch_at_def d by simp
qed

lemma loader_iter_step:
  assumes "exact ld" "k < length (batches ld)"
  shows "leaf_next (LoaderIter (drop k (py_iter (Leaf ld)))) =
           (Inr (batch_at ld k), LoaderIter (drop (Suc k) (py_iter (Leaf ld))))"
  using py_next_drop_Yield[of ld k] assms by (simp add: exact_def)

lemma loader_iter_end:
  assumes "length (batches ld) \<le> k"
  shows "fst (leaf_next (LoaderIter (drop k (py_iter (Leaf ld))))) = Inl StopIteration"
  using assms by simp

lemma CycleIterator_next_stop:
  "ci_length c = Leaf B \<Longrightarrow> B \<le> enat (ci_counter c) \<Longrightarrow> CycleIterator_next c = (Inl StopIteration, c)"
  by (simp add: CycleIterator_next_def CycleIterator_len_def)

lemma CycleIterator_next_pull:
  assumes "ci_length c = Leaf B" "enat (ci_counter c) < B" "ci_loader_iter c = Some it"
  shows "it = Yield v # rest \<Longrightarrow>
           CycleIterator_next c = (Inr v, c\<lparr>ci_loader_iter := Some rest, ci_counter := ci_counter c + 1\<rparr>)"
    and "it = Raise e # rest \<Longrightarrow>
           CycleIterator_next c =
             (Inl (SourceError e), c\<lparr>ci_loader_iter := Some rest, ci_counter := ci_counter c + 1\<rparr>)"
    and "it = [] \<Longrightarrow>
           CycleIterator_next c =
             (fst (py_next (py_iter (ci_loader c))),
              c\<lparr>ci_loader_iter := Some (snd (py_next (py_iter (ci_loader c)))),
                ci_counter := ci_counter c + 1\<rparr>)"
  using assms
  by (auto simp: CycleIterator_next_def CycleIterator_len_def split: prod.splits)

lemma CycleIterator_next_fields:
  "ci_length (snd (CycleIterator_next c)) = ci_length c"
  "ci_loader (snd (CycleIterator_next c)) = ci_loader c"
  by (auto simp: CycleIterator_next_def CycleIterator_len_def
      split: nested.splits option.splits prod.splits sum.splits error.splits)

lemma CycleIterator_next_counter:
  "fst (CycleIterator_next c) = Inr v \<Longrightarrow> ci_counter (snd (CycleIterator_next c)) = ci_counter c + 1"
  by (auto simp: CycleIterator_next_def CycleIterator_len_def
      split: nested.splits option.splits prod.splits sum.splits error.splits if_splits)

lemma CycleIterator_next_counter_le:
  "ci_length c = Leaf (enat L) \<Longrightarrow> ci_counter c < L \<Longrightarrow>
     ci_counter (snd (CycleIterator_next c)) = ci_counter c + 1"
  by (auto simp: CycleIterator_next_def CycleIterator_len_def
      split: nested.splits option.splits prod.splits sum.splits error.splits if_splits)

lemma returned_bound:
  "ci_length c = Leaf (enat L) \<Longrightarrow> returned (calls n c) \<le> L - ci_counter c"
proof (induction n arbitrary: c)
  case 0
  then show ?case by (simp add: returned_def)
next
  case (Suc n)
  obtain r c' where n: "CycleIterator_next c = (r, c')" by (cases "CycleIterator_next c")
  have len: "ci_length c' = Leaf (enat L)"
    using CycleIterator_next_fields(1)[of c] n Suc.prems by simp
  note IH = Suc.IH[OF len]
  show ?case
  proof (cases "ci_counter c < L")
    case True
    then have "ci_counter c' = ci_counter c + 1"
      using CycleIterator_next_counter_le[OF Suc.prems True] n by simp
    then show ?thesis using IH n True by (auto simp: returned_def)
  next
    case False
    then have "CycleIterator_next c = (Inl StopIteration, c)"
      using CycleIterator_next_stop[OF Suc.prems] by simp
    then show ?thesis using IH n False by (auto simp: returned_def)
  qed
qed

lemma unbounded_stop:
  assumes "ci_length c = Leaf \<infinity>" "fst (CycleIterator_next c) = Inl StopIteration"
  shows "ci_loader_iter c = Some [] \<and> py_iter (ci_loader c) = []"
proof (cases "ci_loader_iter c")
  case None
  then show ?thesis using assms by (simp add: CycleIterator_next_def CycleIterator_len_def)
next
  case (Some it)
  have b: "enat (ci_counter c) < \<infinity>" by simp
  show ?thesis
  proof (cases it rule: py_next.cases)
    case 1
    then show ?thesis
      using assms(2) CycleIterator_next_pull(3)[OF assms(1) b Some]
      by (cases "py_iter (ci_loader c)" rule: py_next.cases) (auto simp: Some)
  next
    case (2 v rest)
    then show ?thesis using assms(2) CycleIterator_next_pull(1)[OF assms(1) b Some] by simp
  next
    case (3 e rest)
    then show ?thesis using assms(2) CycleIterator_next_pull(2)[OF assms(1) b Some] by simp
  qed
qed

lemma cycle_at_init:
  "CycleIterator_iter (CycleIterator_init (Leaf ld) (Some (Leaf B))) = cycle_at B ld 0"
  by (simp add: CycleIterator_iter_def CycleIterator_init_def cycle_at_def)

lemma cycle_at_end:
  "CycleIterator_next (cycle_at (enat L) ld L) = (Inl StopIteration, cycle_at (enat L) ld L)"
  by (simp add: CycleIterator_next_def CycleIterator_len_def cycle_at_def)

lemma cycle_at_step:
  assumes y: "list_all is_Yield (batches ld)" and ne: "batches ld \<noteq> []" and k: "enat k < B"
  shows "CycleIterator_next (cycle_at B ld k) =
           (Inr (batch_at ld (k mod length (batches ld))), cycle_at B ld (Suc k))"
proof -
  let ?n = "length (batches ld)"
  let ?evs = "py_iter (Leaf ld)"
  let ?p = "if k = 0 then 0 else Suc ((k - 1) mod ?n)"
  have n: "0 < ?n" using ne by simp
  have p_le: "?p \<le> ?n" using n by (auto simp: Suc_le_eq)
  show ?thesis
  proof (cases "?p < ?n")
    case True
    have pk: "?p = k mod ?n"
    proof (cases k)
      case 0 then show ?thesis by simp
    next
      case (Suc j)
      with True show ?thesis by (simp add: mod_Suc)
    qed
    have "py_next (drop ?p ?evs) = (Inr (batch_at ld ?p), drop (Suc ?p) ?evs)"
      using py_next_drop_Yield[OF y True] .
    then show ?thesis using k pk
      by (simp add: CycleIterator_next_def CycleIterator_len_def cycle_at_def)
  next
    case False
    then have pn: "?p = ?n" using p_le by simp
    then have k0: "k mod ?n = 0" using n by (cases k) (auto simp: mod_Suc split: if_splits)
    have 1: "py_next (drop ?p ?evs) = (Inl StopIteration, [])" using pn by simp
    have 2: "py_next ?evs = (Inr (batch_at ld 0), drop (Suc 0) ?evs)"
      using py_next_drop_Yield[OF y n] by simp
    have 3: "Suc (k mod ?n) = Suc 0" using k0 by simp
    show ?thesis using k 1 2 k0
      by (simp add: CycleIterator_next_def CycleIterator_len_def cycle_at_def)
  qed
qed

lemma cycle_iter_step:
  assumes "exact ld" "batches ld \<noteq> []" "k < L"
  shows "leaf_next (CycleIter (cycle_at (enat L) ld k)) =
           (Inr (batch_at ld (k mod length (batches ld))), CycleIter (cycle_at (enat L) ld (Suc k)))"
  using cycle_at_step[of ld k "enat L"] assms by (simp add: exact_def)

lemma cycle_iter_end:
  "fst (leaf_next (CycleIter (cycle_at (enat L) ld L))) = Inl StopIteration"
  by (simp add: cycle_at_end)

lemma unbounded_calls:
  assumes "list_all is_Yield (batches ld)" "batches ld \<noteq> []"
  shows "returned (calls n (cycle_at \<infinity> ld k)) = n"
proof (induction n arbitrary: k)
  case 0
  then show ?case by (simp add: returned_def)
next
  case (Suc n)
  have "CycleIterator_next (cycle_at \<infinity> ld k) =
          (Inr (batch_at ld (k mod length (batches ld))), cycle_at \<infinity> ld (Suc k))"
    using assms by (intro cycle_at_step) auto
  then show ?case using Suc.IH[of "Suc k"] by (simp add: returned_def)
qed

subsection \<open>Sessions\<close>




lemma for_loop_lockstep:
  assumes step: "\<forall>l \<in> set (leaves t). \<forall>k < m. leaf_next (S l k) = (Inr (V l k), S l (Suc k))"
    and stop: "\<exists>l \<in> set (leaves t). fst (leaf_next (S l m)) = Inl e"
    and rest: "\<forall>l \<in> set (leaves t). fst (leaf_next (S l m)) = Inl e \<or> (\<exists>v. fst (leaf_next (S l m)) = Inr v)"
  shows "j \<le> m \<Longrightarrow> loader_iters s = map_nested (\<lambda>l. S l j) t \<Longrightarrow> m - j < fuel \<Longrightarrow>
           for_loop fuel s = (map (\<lambda>k. map_nested (\<lambda>l. V l k) t) [j..<m], Some e)"
proof (induction fuel arbitrary: j s)
  case 0
  then show ?case by simp
next
  case (Suc fuel)
  show ?case
  proof (cases "j = m")
    case True
    have "fst (request_next_batch (loader_iters s)) = Inl e"
      unfolding request_next_batch_def Suc.prems(2) True
      using stop rest by (rule apply_st_labelled_fail)
    then show ?thesis using True
      by (auto simp: CombinedLoaderIterator_next_def split: prod.splits sum.splits)
  next
    case False
    then have j: "j < m" using Suc.prems(1) by simp
    have "\<forall>l \<in> set (leaves t). leaf_next (S l j) = (Inr (V l j), S l (Suc j))"
      using step j by blast
    then have r: "request_next_batch (loader_iters s) =
        (Inr (map_nested (\<lambda>l. V l j) t), map_nested (\<lambda>l. S l (Suc j)) t)"
      unfolding request_next_batch_def Suc.prems(2) by (rule apply_st_labelled)
    define s' where "s' = s\<lparr>cli_loader_iters := Some (map_nested (\<lambda>l. S l (Suc j)) t)\<rparr>"
    have n: "CombinedLoaderIterator_next s = (Inr (map_nested (\<lambda>l. V l j) t), s')"
      by (simp add: CombinedLoaderIterator_next_def r s'_def)
    have "loader_iters s' = map_nested (\<lambda>l. S l (Suc j)) t"
      by (simp add: loader_iters_def s'_def)
    moreover have "Suc j \<le> m" "m - Suc j < fuel" using j Suc.prems(3) by auto
    ultimately have "for_loop fuel s' = (map (\<lambda>k. map_nested (\<lambda>l. V l k) t) [Suc j..<m], Some e)"
      using Suc.IH by blast
    then show ?thesis using n j by (simp add: upt_conv_Cons)
  qed
qed

subsection \<open>Construction\<close>

lemma create_loader_iters_log_snd:
  "snd (create_loader_iters_log loaders) = create_loader_iters loaders"
proof -
  have "(\<lambda>x. snd (source_iter_touch x)) = (source_iter :: 'a source \<Rightarrow> 'a leaf_iter)"
  proof
    fix x :: "'a source"
    show "snd (source_iter_touch x) = source_iter x" by (cases x) simp_all
  qed
  then show ?thesis
    by (simp add: create_loader_iters_log_def create_loader_iters_def apply_log_eq(1)
        apply_to_collection_def)
qed

lemma wrap_fst: "fst (wrap_loaders_max_size_cycle loaders) = map GetLen (leaves loaders)"
  by (simp add: wrap_loaders_max_size_cycle_def apply_log_eq(1) get_len_touch_def comp_def
      split: prod.splits)

lemma wrap_snd:
  "snd (wrap_loaders_max_size_cycle loaders) =
     (case (case apply_to_collection get_len loaders of
              Leaf n \<Rightarrow> Inr (Leaf n)
            | Mapping kvs \<Rightarrow> py_builtin PyMax (map snd kvs)
            | Seq k xs \<Rightarrow> py_builtin PyMax xs) of
        Inl e \<Rightarrow> Inl e
      | Inr lgth \<Rightarrow>
          (case loaders of
             Mapping kvs \<Rightarrow>
               Inr (Mapping (map (\<lambda>kv. (fst kv,
                      Leaf (Cycle (CycleIterator_init (snd kv) (Some lgth))))) kvs))
           | Seq k xs \<Rightarrow>
               Inr (Seq k (map (\<lambda>v. Leaf (Cycle (CycleIterator_init v (Some lgth)))) xs))
           | Leaf ld \<Rightarrow> Inr (Leaf (Loader ld))))"
  by (simp add: wrap_loaders_max_size_cycle_def apply_log_eq(1) get_len_touch_def
      apply_to_collection_def split: prod.splits)

lemma init_snd:
  "snd (CombinedLoader_init loaders mode) =
     (if mode \<notin> set SUPPORTED_MODES then Inl MisconfigurationException
      else if mode = ''max_size_cycle'' then
        (case snd (wrap_loaders_max_size_cycle loaders) of
           Inl e \<Rightarrow> Inl e
         | Inr wrapped \<Rightarrow>
             Inr \<lparr>cl_loaders = wrapped,
                  cl_dataset = \<lparr>cd_datasets = apply_to_collection dataset loaders,
                                cd_mode = mode\<rparr>,
                  cl_mode = mode\<rparr>)
      else
        Inr \<lparr>cl_loaders = apply_to_collection Loader loaders,
             cl_dataset = \<lparr>cd_datasets = apply_to_collection dataset loaders, cd_mode = mode\<rparr>,
             cl_mode = mode\<rparr>)"
  by (cases "wrap_loaders_max_size_cycle loaders")
    (auto simp: CombinedLoader_init_def CombinedDataset_init_def COMPUTE_FUNCS_simps
      apply_log_eq(1) getattr_dataset_def apply_to_collection_def split: prod.splits sum.splits)

lemma init_fst:
  "fst (CombinedLoader_init loaders mode) =
     (if mode \<in> set SUPPORTED_MODES \<and> mode = ''max_size_cycle''
      then map GetDataset (leaves loaders) @ map GetLen (leaves loaders)
      else map GetDataset (leaves loaders))"
  using wrap_fst[of loaders]
  by (cases "wrap_loaders_max_size_cycle loaders")
    (auto simp: CombinedLoader_init_def CombinedDataset_init_def COMPUTE_FUNCS_simps
      apply_log_eq(1) getattr_dataset_def comp_def split: prod.splits sum.splits)

lemma init_min_size:
  "snd (CombinedLoader_init loaders ''min_size'') =
     Inr \<lparr>cl_loaders = apply_to_collection Loader loaders,
          cl_dataset = \<lparr>cd_datasets = apply_to_collection dataset loaders, cd_mode = ''min_size''\<rparr>,
          cl_mode = ''min_size''\<rparr>"
  by (simp add: init_snd SUPPORTED_MODES_def)

lemma init_max_size_cycle:
  "snd (CombinedLoader_init loaders ''max_size_cycle'') =
     (case snd (wrap_loaders_max_size_cycle loaders) of
        Inl e \<Rightarrow> Inl e
      | Inr wrapped \<Rightarrow>
          Inr \<lparr>cl_loaders = wrapped,
               cl_dataset = \<lparr>cd_datasets = apply_to_collection dataset loaders,
                             cd_mode = ''max_size_cycle''\<rparr>,
               cl_mode = ''max_size_cycle''\<rparr>)"
  by (simp add: init_snd SUPPORTED_MODES_def)

lemma wrap_flat:
  assumes fl: "flat loaders" and ne: "leaves loaders \<noteq> []"
  defines "B \<equiv> Max (set (map get_len (leaves loaders)))"
  shows "snd (wrap_loaders_max_size_cycle loaders) =
     Inr (case loaders of
            Leaf ld \<Rightarrow> Leaf (Loader ld)
          | Seq k xs \<Rightarrow>
              map_nested (\<lambda>ld. Cycle (CycleIterator_init (Leaf ld) (Some (Leaf B)))) loaders
          | Mapping kvs \<Rightarrow>
              map_nested (\<lambda>ld. Cycle (CycleIterator_init (Leaf ld) (Some (Leaf B)))) loaders)"
proof -
  let ?cyc = "\<lambda>ld. Cycle (CycleIterator_init (Leaf ld) (Some (Leaf B)))"
  have m: "(case map_nested get_len loaders of
              Leaf n \<Rightarrow> Inr (Leaf n)
            | Mapping kvs \<Rightarrow> py_builtin PyMax (map snd kvs)
            | Seq k xs \<Rightarrow> py_builtin PyMax xs) = Inr (Leaf B)"
    unfolding B_def using fl ne by (rule reduce_flat(2))
  have s: "map (\<lambda>v. Leaf (Cycle (CycleIterator_init v (Some (Leaf B))))) xs = map (map_nested ?cyc) xs"
    if "list_all is_Leaf xs" for xs :: "'a loader nested list"
    using that by (induction xs) (auto elim: is_Leaf.elims)
  have k: "map (\<lambda>kv. (fst kv, Leaf (Cycle (CycleIterator_init (snd kv) (Some (Leaf B)))))) kvs
            = map (map_prod id (map_nested ?cyc)) kvs"
    if "list_all is_Leaf (map snd kvs)" for kvs :: "(key \<times> 'a loader nested) list"
    using that by (induction kvs) (auto elim: is_Leaf.elims)
  show ?thesis
  proof (cases loaders)
    case (Leaf ld)
    then show ?thesis using m by (simp add: wrap_snd apply_to_collection_def)
  next
    case (Seq k xs)
    then have "list_all is_Leaf xs" using fl by (simp add: flat_def)
    from s[OF this] show ?thesis using m Seq
      by (simp add: wrap_snd apply_to_collection_def)
  next
    case (Mapping kvs)
    then have "list_all is_Leaf (map snd kvs)" using fl by (simp add: flat_def)
    from k[OF this] show ?thesis using m Mapping
      by (simp add: wrap_snd apply_to_collection_def)
  qed
qed




section \<open>Flat containers\<close>

text \<open>
  The three length computations, \<^verbatim>\<open>CombinedDataset._calc_num_data\<close>,
  \<^verbatim>\<open>CombinedLoader._calc_num_batches\<close> and the maximum in
  \<^verbatim>\<open>CombinedLoader._wrap_loaders_max_size_cycle\<close>, apply \<^verbatim>\<open>min\<close> or \<^verbatim>\<open>max\<close> to the members
  of the container they are given, and \<^verbatim>\<open>_wrap_loaders_max_size_cycle\<close> wraps these
  members. On a flat container, whose members are the loaders or datasets
  themselves, that is the least or greatest length and a \<^verbatim>\<open>CycleIterator\<close> around every
  loader, as the docstrings of the three methods say.
\<close>

lemmas ex_defs = doc_loaders_def loader_a_def loader_b_def loader_empty_def loader_faulty_def

lemmas cycle_defs = CycleIterator_init_def CycleIterator_iter_def CycleIterator_next_def
  CycleIterator_len_def

subsection \<open>Lengths and iteration of a combined loader\<close>

text \<open>
  On a flat container (a single loader, or a sequence or mapping of loaders) with at
  least one loader, where every loader yields exactly its declared number of batches
  and none is empty, mode \<^verbatim>\<open>max_size_cycle\<close> does what the docstring of
  \<^verbatim>\<open>CombinedLoader\<close> says: the length of the combined loader is \<open>L\<close>, the greatest of
  the loaders' lengths, and a loop over it receives exactly \<open>L\<close> elements and then
  \<open>StopIteration\<close>; element \<open>i\<close> holds, for every loader, the batch number
  \<open>i mod n\<close> of that loader, \<open>n\<close> being its length: a shorter loader starts again
  at its first batch.
\<close>

lemma flat_max_size_cycle:
  assumes fl: "flat loaders" and ne: "leaves loaders \<noteq> []"
    and ex: "\<forall>ld \<in> set (leaves loaders). exact ld"
    and pos: "\<forall>ld \<in> set (leaves loaders). batches ld \<noteq> []"
  shows "combined_len loaders ''max_size_cycle'' = Inr (Leaf (enat (longest loaders))) \<and>
         (longest loaders < fuel \<longrightarrow>
            combined_run fuel loaders ''max_size_cycle'' =
              Inr (map (\<lambda>i. map_nested (\<lambda>ld. batch_at ld (i mod length (batches ld))) loaders)
                     [0..<longest loaders],
                   Some StopIteration))"
proof -
  let ?L = "longest loaders"
  let ?V = "\<lambda>ld k. batch_at ld (k mod length (batches ld))"
  let ?cyc = "\<lambda>ld. Cycle (CycleIterator_init (Leaf ld) (Some (Leaf (enat ?L))))"
  have B: "Max (set (map get_len (leaves loaders))) = enat ?L"
    using exact_lengths(2)[OF ex ne] .
  note wrap = wrap_flat[OF fl ne, unfolded B]
  show ?thesis
  proof (cases "is_Leaf loaders")
    case True
    then obtain ld where ld: "loaders = Leaf ld" by (cases loaders) auto
    have L: "?L = length (batches ld)" by (simp add: longest_def ld)
    have eld: "exact ld" using ex ld by simp
    define cl :: "'a CombinedLoader" where "cl = \<lparr>cl_loaders = Leaf (Loader ld),
        cl_dataset = \<lparr>cd_datasets = apply_to_collection dataset loaders,
                      cd_mode = ''max_size_cycle''\<rparr>,
        cl_mode = ''max_size_cycle''\<rparr>"
    have init: "snd (CombinedLoader_init loaders ''max_size_cycle'') = Inr cl"
      using wrap by (simp add: init_max_size_cycle ld cl_def)
    have len: "combined_len loaders ''max_size_cycle'' = Inr (Leaf (enat ?L))"
      using get_len_exact[OF eld]
      by (simp add: combined_len_def init cl_def CombinedLoader_len_def calc_num_batches_def
          apply_to_collection_def L)
    let ?S = "\<lambda>ld k. LoaderIter (drop k (py_iter (Leaf ld)))"
    have step: "\<forall>l \<in> set (leaves loaders). \<forall>k < ?L. leaf_next (?S l k) = (Inr (?V l k), ?S l (Suc k))"
    proof (intro ballI allI impI)
      fix l k assume "l \<in> set (leaves loaders)" "k < ?L"
      then have l: "l = ld" and k: "k < length (batches ld)" using ld L by auto
      show "leaf_next (?S l k) = (Inr (?V l k), ?S l (Suc k))"
        unfolding l using loader_iter_step[OF eld k] k by simp
    qed
    have "fst (leaf_next (?S ld ?L)) = Inl StopIteration"
      using loader_iter_end[of ld ?L] L by simp
    then have stop: "\<exists>l \<in> set (leaves loaders). fst (leaf_next (?S l ?L)) = Inl StopIteration"
      and rest: "\<forall>l \<in> set (leaves loaders). fst (leaf_next (?S l ?L)) = Inl StopIteration
        \<or> (\<exists>v. fst (leaf_next (?S l ?L)) = Inr v)"
      using ld by auto
    have its: "loader_iters (CombinedLoader_iter cl) = map_nested (\<lambda>l. ?S l 0) loaders"
      by (simp add: loader_iters_def CombinedLoader_iter_def cl_def create_loader_iters_def
          apply_to_collection_def ld)
    have run: "for_loop fuel (CombinedLoader_iter cl) =
        (map (\<lambda>k. map_nested (\<lambda>l. ?V l k) loaders) [0..<?L], Some StopIteration)"
      if "?L < fuel"
      using for_loop_lockstep[where S = ?S and V = ?V, OF step stop rest _ its, of fuel] that
      by simp
    show ?thesis using len run by (simp add: combined_run_def init)
  next
    case False
    define cl :: "'a CombinedLoader" where "cl = \<lparr>cl_loaders = map_nested ?cyc loaders,
        cl_dataset = \<lparr>cd_datasets = apply_to_collection dataset loaders,
                      cd_mode = ''max_size_cycle''\<rparr>,
        cl_mode = ''max_size_cycle''\<rparr>"
    have w: "snd (wrap_loaders_max_size_cycle loaders) = Inr (map_nested ?cyc loaders)"
      using wrap False by (cases loaders) auto
    have init: "snd (CombinedLoader_init loaders ''max_size_cycle'') = Inr cl"
      using w by (simp add: init_max_size_cycle cl_def)
    have "set (map (\<lambda>ld. enat ?L) (leaves loaders)) = {enat ?L}"
      using ne by (cases "leaves loaders") auto
    then have "Min (set (map (\<lambda>ld. enat ?L) (leaves loaders))) = enat ?L"
      by (simp only: Min_singleton)
    then have len: "combined_len loaders ''max_size_cycle'' = Inr (Leaf (enat ?L))"
      using reduce_flat(1)[OF fl ne, of "\<lambda>ld. enat ?L"]
      by (simp add: combined_len_def init cl_def CombinedLoader_len_def calc_num_batches_def
          apply_to_collection_def nested.map_comp comp_def get_len_cycle_def
          CycleIterator_len_def CycleIterator_init_def)
    let ?S = "\<lambda>ld k. CycleIter (cycle_at (enat ?L) ld k)"
    have step: "\<forall>l \<in> set (leaves loaders). \<forall>k < ?L. leaf_next (?S l k) = (Inr (?V l k), ?S l (Suc k))"
    proof (intro ballI allI impI)
      fix l k assume l: "l \<in> set (leaves loaders)" and k: "k < ?L"
      then have "exact l" "batches l \<noteq> []" using ex pos by auto
      then show "leaf_next (?S l k) = (Inr (?V l k), ?S l (Suc k))"
        using k by (rule cycle_iter_step)
    qed
    obtain l0 where l0: "l0 \<in> set (leaves loaders)"
      using ne by (cases "leaves loaders") auto
    have stop: "\<exists>l \<in> set (leaves loaders). fst (leaf_next (?S l ?L)) = Inl StopIteration"
      using l0 cycle_iter_end[of ?L] by blast
    have rest: "\<forall>l \<in> set (leaves loaders). fst (leaf_next (?S l ?L)) = Inl StopIteration
        \<or> (\<exists>v. fst (leaf_next (?S l ?L)) = Inr v)"
      using cycle_iter_end[of ?L] by blast
    have its: "loader_iters (CombinedLoader_iter cl) = map_nested (\<lambda>l. ?S l 0) loaders"
      by (simp add: loader_iters_def CombinedLoader_iter_def cl_def create_loader_iters_def
          apply_to_collection_def nested.map_comp comp_def cycle_at_init)
    have run: "for_loop fuel (CombinedLoader_iter cl) =
        (map (\<lambda>k. map_nested (\<lambda>l. ?V l k) loaders) [0..<?L], Some StopIteration)"
      if "?L < fuel"
      using for_loop_lockstep[where S = ?S and V = ?V, OF step stop rest _ its, of fuel] that
      by simp
    show ?thesis using len run by (simp add: combined_run_def init)
  qed
qed

text \<open>
  The example of the docstring of \<^verbatim>\<open>CombinedLoader\<close>, where loader \<^verbatim>\<open>'a'\<close> starts
  again in the third element.
\<close>

lemma flat_max_size_cycle_docstring:
  "flat doc_loaders \<and> leaves doc_loaders \<noteq> [] \<and> list_all exact (leaves doc_loaders) \<and>
   longest doc_loaders = 3 \<and>
   combined_len doc_loaders ''max_size_cycle'' = Inr (Leaf (enat 3)) \<and>
   combined_run 4 doc_loaders ''max_size_cycle'' =
     Inr ([Mapping [(''a'', Leaf (Batch [0, 1, 2, 3])), (''b'', Leaf (Batch [0, 1, 2, 3, 4]))],
           Mapping [(''a'', Leaf (Batch [4, 5])), (''b'', Leaf (Batch [5, 6, 7, 8, 9]))],
           Mapping [(''a'', Leaf (Batch [0, 1, 2, 3])), (''b'', Leaf (Batch [10, 11, 12, 13, 14]))]],
          Some StopIteration)"
proof -
  have fl: "flat doc_loaders" and ne: "leaves doc_loaders \<noteq> []"
    by (simp_all add: flat_def doc_loaders_def)
  have ex: "\<forall>ld \<in> set (leaves doc_loaders). exact ld"
    by (simp add: doc_loaders_def exact_def loader_a_def loader_b_def)
  have L: "longest doc_loaders = 3"
    by (simp add: longest_def doc_loaders_def loader_a_def loader_b_def)
  have pos: "\<forall>ld \<in> set (leaves doc_loaders). batches ld \<noteq> []"
    by (simp add: doc_loaders_def loader_a_def loader_b_def)
  have els: "map (\<lambda>i. map_nested (\<lambda>ld. batch_at ld (i mod length (batches ld))) doc_loaders) [0..<3] =
      [Mapping [(''a'', Leaf (Batch [0, 1, 2, 3])), (''b'', Leaf (Batch [0, 1, 2, 3, 4]))],
       Mapping [(''a'', Leaf (Batch [4, 5])), (''b'', Leaf (Batch [5, 6, 7, 8, 9]))],
       Mapping [(''a'', Leaf (Batch [0, 1, 2, 3])), (''b'', Leaf (Batch [10, 11, 12, 13, 14]))]]"
    by (simp add: doc_loaders_def loader_a_def loader_b_def batch_at_def upt_rec)
  from flat_max_size_cycle[OF fl ne ex pos, of 4]
  show ?thesis using fl ne ex L els by (simp add: list_all_iff)
qed

text \<open>
  On such a container mode \<^verbatim>\<open>min_size\<close> does what the docstring says as well: the
  length of the combined loader is \<open>m\<close>, the least of the loaders' lengths, and a
  loop over it receives exactly \<open>m\<close> elements and then \<open>StopIteration\<close>, element \<open>i\<close>
  holding batch number \<open>i\<close> of every loader.
\<close>

lemma flat_min_size:
  assumes fl: "flat loaders" and ne: "leaves loaders \<noteq> []"
    and ex: "\<forall>ld \<in> set (leaves loaders). exact ld"
    and pos: "\<forall>ld \<in> set (leaves loaders). batches ld \<noteq> []"
  shows "combined_len loaders ''min_size'' = Inr (Leaf (enat (shortest loaders))) \<and>
         (shortest loaders < fuel \<longrightarrow>
            combined_run fuel loaders ''min_size'' =
              Inr (map (\<lambda>i. map_nested (\<lambda>ld. batch_at ld i) loaders) [0..<shortest loaders],
                   Some StopIteration))"
proof -
  let ?m = "shortest loaders"
  let ?S = "\<lambda>ld k. LoaderIter (drop k (py_iter (Leaf ld)))"
  define cl :: "'a CombinedLoader" where "cl = \<lparr>cl_loaders = apply_to_collection Loader loaders,
          cl_dataset = \<lparr>cd_datasets = apply_to_collection dataset loaders, cd_mode = ''min_size''\<rparr>,
          cl_mode = ''min_size''\<rparr>"
  have init: "snd (CombinedLoader_init loaders ''min_size'') = Inr cl"
    unfolding cl_def by (rule init_min_size)
  have len: "combined_len loaders ''min_size'' = Inr (Leaf (enat ?m))" if "flat loaders"
    using reduce_flat(1)[OF that ne, of get_len] exact_lengths(1)[OF ex ne]
    by (simp add: combined_len_def init cl_def CombinedLoader_len_def calc_num_batches_def
        apply_to_collection_def nested.map_comp comp_def)
  have fin: "finite (set (map (\<lambda>ld. length (batches ld)) (leaves loaders)))"
    and nonempty: "set (map (\<lambda>ld. length (batches ld)) (leaves loaders)) \<noteq> {}"
    using ne by auto
  have le: "?m \<le> length (batches ld)" if "ld \<in> set (leaves loaders)" for ld
    unfolding shortest_def using that by (intro Min_le) auto
  have step: "\<forall>ld \<in> set (leaves loaders). \<forall>k < ?m.
      leaf_next (?S ld k) = (Inr (batch_at ld k), ?S ld (Suc k))"
  proof (intro ballI allI impI)
    fix ld k assume "ld \<in> set (leaves loaders)" "k < ?m"
    then have "exact ld" "k < length (batches ld)" using ex le[of ld] by auto
    then show "leaf_next (?S ld k) = (Inr (batch_at ld k), ?S ld (Suc k))"
      by (rule loader_iter_step)
  qed
  have "?m \<in> set (map (\<lambda>ld. length (batches ld)) (leaves loaders))"
    unfolding shortest_def using fin nonempty by (rule Min_in)
  then have stop: "\<exists>ld \<in> set (leaves loaders). fst (leaf_next (?S ld ?m)) = Inl StopIteration"
    by (auto intro!: bexI loader_iter_end)
  have rest: "\<forall>ld \<in> set (leaves loaders). fst (leaf_next (?S ld ?m)) = Inl StopIteration
      \<or> (\<exists>v. fst (leaf_next (?S ld ?m)) = Inr v)"
  proof
    fix ld assume ld: "ld \<in> set (leaves loaders)"
    show "fst (leaf_next (?S ld ?m)) = Inl StopIteration \<or> (\<exists>v. fst (leaf_next (?S ld ?m)) = Inr v)"
    proof (cases "?m < length (batches ld)")
      case True
      then show ?thesis using loader_iter_step[of ld ?m] ex ld by simp
    next
      case False
      then show ?thesis using loader_iter_end[of ld ?m] by simp
    qed
  qed
  have its: "loader_iters (CombinedLoader_iter cl) = map_nested (\<lambda>ld. ?S ld 0) loaders"
    by (simp add: loader_iters_def CombinedLoader_iter_def cl_def create_loader_iters_def
        apply_to_collection_def nested.map_comp comp_def)
  have run: "for_loop fuel (CombinedLoader_iter cl) =
      (map (\<lambda>k. map_nested (\<lambda>ld. batch_at ld k) loaders) [0..<?m], Some StopIteration)"
    if "?m < fuel"
    using for_loop_lockstep[where S = ?S and V = batch_at, OF step stop rest _ its, of fuel] that
    by simp
  show ?thesis using len[OF fl] run by (simp add: combined_run_def init)
qed

text \<open>The example of the docstring of \<^verbatim>\<open>CombinedLoader\<close> in mode \<^verbatim>\<open>min_size\<close>.\<close>

lemma flat_min_size_docstring:
  "flat doc_loaders \<and> leaves doc_loaders \<noteq> [] \<and> list_all exact (leaves doc_loaders) \<and>
   shortest doc_loaders = 2 \<and>
   combined_len doc_loaders ''min_size'' = Inr (Leaf (enat 2)) \<and>
   combined_run 3 doc_loaders ''min_size'' =
     Inr ([Mapping [(''a'', Leaf (Batch [0, 1, 2, 3])), (''b'', Leaf (Batch [0, 1, 2, 3, 4]))],
           Mapping [(''a'', Leaf (Batch [4, 5])), (''b'', Leaf (Batch [5, 6, 7, 8, 9]))]],
          Some StopIteration)"
proof -
  have fl: "flat doc_loaders" and ne: "leaves doc_loaders \<noteq> []"
    by (simp_all add: flat_def doc_loaders_def)
  have ex: "\<forall>ld \<in> set (leaves doc_loaders). exact ld"
    by (simp add: ex_defs exact_def)
  have m: "shortest doc_loaders = 2"
    by (simp add: shortest_def ex_defs)
  have els: "map (\<lambda>i. map_nested (\<lambda>ld. batch_at ld i) doc_loaders) [0..<2] =
      [Mapping [(''a'', Leaf (Batch [0, 1, 2, 3])), (''b'', Leaf (Batch [0, 1, 2, 3, 4]))],
       Mapping [(''a'', Leaf (Batch [4, 5])), (''b'', Leaf (Batch [5, 6, 7, 8, 9]))]]"
    by (simp add: ex_defs batch_at_def upt_rec)
  have pos: "\<forall>ld \<in> set (leaves doc_loaders). batches ld \<noteq> []"
    by (simp add: ex_defs)
  from flat_min_size[OF fl ne ex pos, of 3]
  show ?thesis using fl ne ex m els by (simp add: list_all_iff)
qed

subsection \<open>Lengths of a \<^verbatim>\<open>CombinedDataset\<close>\<close>

text \<open>
  The properties \<^verbatim>\<open>max_len\<close> and \<^verbatim>\<open>min_len\<close> of a \<^verbatim>\<open>CombinedDataset\<close> do not read its
  mode: \<^verbatim>\<open>max_len\<close> is what \<^verbatim>\<open>__len__\<close> returns in mode \<^verbatim>\<open>max_size_cycle\<close> and
  \<^verbatim>\<open>min_len\<close> what it returns in mode \<^verbatim>\<open>min_size\<close>. On a flat container of at least
  one dataset, none of length 0, they are the greatest and the least of the
  datasets' lengths. The
  method \<^verbatim>\<open>__len__\<close> is what is modelled here, not the builtin \<^verbatim>\<open>len\<close>, which refuses
  a result that is not an \<^verbatim>\<open>int\<close>.
\<close>

lemma dataset_views_flat:
  "max_len (d\<lparr>cd_mode := m\<rparr>) = max_len d \<and>
   min_len (d\<lparr>cd_mode := m\<rparr>) = min_len d \<and>
   max_len d = CombinedDataset_len (d\<lparr>cd_mode := ''max_size_cycle''\<rparr>) \<and>
   min_len d = CombinedDataset_len (d\<lparr>cd_mode := ''min_size''\<rparr>) \<and>
   (flat (cd_datasets d) \<and> leaves (cd_datasets d) \<noteq> [] \<and>
    Some (Sized 0) \<notin> set (leaves (cd_datasets d)) \<longrightarrow>
      max_len d = Inr (Leaf (Max (set (map get_len_dataset (leaves (cd_datasets d)))))) \<and>
      min_len d = Inr (Leaf (Min (set (map get_len_dataset (leaves (cd_datasets d)))))))"
  by (simp add: CombinedDataset_len_def min_len_def max_len_def calc_num_data_def
      apply_to_collection_def COMPUTE_FUNCS_simps reduce_flat)

text \<open>The datasets of the example in the docstring of \<^verbatim>\<open>CombinedLoader\<close>.\<close>

lemma dataset_views_docstring:
  "max_len \<lparr>cd_datasets = apply_to_collection dataset doc_loaders, cd_mode = ''min_size''\<rparr>
     = Inr (Leaf (enat 15)) \<and>
   min_len \<lparr>cd_datasets = apply_to_collection dataset doc_loaders, cd_mode = ''max_size_cycle''\<rparr>
     = Inr (Leaf (enat 6))"
proof -
  let ?ds = "apply_to_collection dataset doc_loaders"
  let ?d1 = "\<lparr>cd_datasets = ?ds, cd_mode = ''min_size''\<rparr>"
  let ?d2 = "\<lparr>cd_datasets = ?ds, cd_mode = ''max_size_cycle''\<rparr>"
  have f1: "flat (cd_datasets ?d1) \<and> leaves (cd_datasets ?d1) \<noteq> [] \<and>
      Some (Sized 0) \<notin> set (leaves (cd_datasets ?d1))"
    and f2: "flat (cd_datasets ?d2) \<and> leaves (cd_datasets ?d2) \<noteq> [] \<and>
      Some (Sized 0) \<notin> set (leaves (cd_datasets ?d2))"
    by (simp_all add: flat_def apply_to_collection_def ex_defs)
  have 1: "max_len ?d1 = Inr (Leaf (Max (set (map get_len_dataset (leaves (cd_datasets ?d1))))))"
    using dataset_views_flat[where d = ?d1] f1 by blast
  have 2: "min_len ?d2 = Inr (Leaf (Min (set (map get_len_dataset (leaves (cd_datasets ?d2))))))"
    using dataset_views_flat[where d = ?d2] f2 by blast
  have "Max (set (map get_len_dataset (leaves (cd_datasets ?d1)))) = enat 15"
    "Min (set (map get_len_dataset (leaves (cd_datasets ?d2)))) = enat 6"
    by (simp_all add: apply_to_collection_def ex_defs)
  then show ?thesis using 1 2 by simp
qed

text \<open>
  \<^verbatim>\<open>__len__\<close> of a \<^verbatim>\<open>CombinedDataset\<close> follows the mode of the dataset: in mode
  \<^verbatim>\<open>min_size\<close> it is \<^verbatim>\<open>min_len\<close>, in mode \<^verbatim>\<open>max_size_cycle\<close> it is \<^verbatim>\<open>max_len\<close>; on a
  flat container of at least one dataset, none of length 0, that is the least and
  the greatest of the datasets' lengths.
\<close>

lemma dataset_len_flat:
  "(cd_mode d = ''min_size'' \<longrightarrow> CombinedDataset_len d = min_len d) \<and>
   (cd_mode d = ''max_size_cycle'' \<longrightarrow> CombinedDataset_len d = max_len d) \<and>
   (flat (cd_datasets d) \<and> leaves (cd_datasets d) \<noteq> [] \<and>
    Some (Sized 0) \<notin> set (leaves (cd_datasets d)) \<longrightarrow>
      (cd_mode d = ''min_size'' \<longrightarrow>
         CombinedDataset_len d = Inr (Leaf (Min (set (map get_len_dataset (leaves (cd_datasets d))))))) \<and>
      (cd_mode d = ''max_size_cycle'' \<longrightarrow>
         CombinedDataset_len d = Inr (Leaf (Max (set (map get_len_dataset (leaves (cd_datasets d))))))))"
  by (simp add: CombinedDataset_len_def min_len_def max_len_def calc_num_data_def
      apply_to_collection_def COMPUTE_FUNCS_simps reduce_flat)

text \<open>The same datasets, in either mode.\<close>

lemma dataset_len_docstring:
  "CombinedDataset_len
     \<lparr>cd_datasets = apply_to_collection dataset doc_loaders, cd_mode = ''max_size_cycle''\<rparr>
     = Inr (Leaf (enat 15)) \<and>
   CombinedDataset_len
     \<lparr>cd_datasets = apply_to_collection dataset doc_loaders, cd_mode = ''min_size''\<rparr>
     = Inr (Leaf (enat 6))"
proof -
  let ?ds = "apply_to_collection dataset doc_loaders"
  let ?d1 = "\<lparr>cd_datasets = ?ds, cd_mode = ''max_size_cycle''\<rparr>"
  let ?d2 = "\<lparr>cd_datasets = ?ds, cd_mode = ''min_size''\<rparr>"
  have f1: "flat (cd_datasets ?d1) \<and> leaves (cd_datasets ?d1) \<noteq> [] \<and>
      Some (Sized 0) \<notin> set (leaves (cd_datasets ?d1))"
    and f2: "flat (cd_datasets ?d2) \<and> leaves (cd_datasets ?d2) \<noteq> [] \<and>
      Some (Sized 0) \<notin> set (leaves (cd_datasets ?d2))"
    by (simp_all add: flat_def apply_to_collection_def ex_defs)
  have m1: "cd_mode ?d1 = ''max_size_cycle''" and m2: "cd_mode ?d2 = ''min_size''"
    by simp_all
  have 1: "CombinedDataset_len ?d1
      = Inr (Leaf (Max (set (map get_len_dataset (leaves (cd_datasets ?d1))))))"
    using dataset_len_flat[of ?d1] f1 m1 by blast
  have 2: "CombinedDataset_len ?d2
      = Inr (Leaf (Min (set (map get_len_dataset (leaves (cd_datasets ?d2))))))"
    using dataset_len_flat[of ?d2] f2 m2 by blast
  have "Max (set (map get_len_dataset (leaves (cd_datasets ?d1)))) = enat 15"
    "Min (set (map get_len_dataset (leaves (cd_datasets ?d2)))) = enat 6"
    by (simp_all add: apply_to_collection_def ex_defs)
  then show ?thesis using 1 2 by simp
qed

section \<open>The claims\<close>

subsection \<open>One call of \<^verbatim>\<open>__next__\<close> of a session\<close>

text \<open>
  Claim C3. A call of \<^verbatim>\<open>CombinedLoaderIterator.__next__\<close> pulls the iterators of the
  leaves in order. It raises the exception of the first pull that raises, and
  otherwise returns the container that holds the value of every pull. So when
  the pulls before some leaf return and the pull at that leaf raises
  \<open>StopIteration\<close>, the call raises \<open>StopIteration\<close>; and a call that returns has a
  batch for every leaf: no pull raised, and the result has the shape of the
  container of iterators and as many leaves.
\<close>

theorem next_all_or_nothing:
  "fst (CombinedLoaderIterator_next s) =
     (case first_error leaf_next (leaves (loader_iters s)) of
        Some e \<Rightarrow> Inl e
      | None \<Rightarrow> Inr (map_nested (\<lambda>x. projr (fst (leaf_next x))) (loader_iters s))) \<and>
   (leaves (loader_iters s) = before @ x # after \<and>
    list_all (\<lambda>y. \<not> isl (fst (leaf_next y))) before \<and>
    fst (leaf_next x) = Inl StopIteration \<longrightarrow>
      fst (CombinedLoaderIterator_next s) = Inl StopIteration) \<and>
   (fst (CombinedLoaderIterator_next s) = Inr out \<longrightarrow>
      list_all (\<lambda>y. \<not> isl (fst (leaf_next y))) (leaves (loader_iters s)) \<and>
      shape out = shape (loader_iters s) \<and>
      leaves out = map (\<lambda>y. projr (fst (leaf_next y))) (leaves (loader_iters s)))"
proof -
  let ?its = "loader_iters s"
  have r: "fst (CombinedLoaderIterator_next s) =
     (case first_error leaf_next (leaves ?its) of
        Some e \<Rightarrow> Inl e
      | None \<Rightarrow> Inr (map_nested (\<lambda>x. projr (fst (leaf_next x))) ?its))"
    by (simp add: CombinedLoaderIterator_next_def request_next_batch_def
        apply_st_result(1)[symmetric] split: prod.splits)
  have a: "fst (CombinedLoaderIterator_next s) = Inl StopIteration"
    if "leaves ?its = before @ x # after" "list_all (\<lambda>y. \<not> isl (fst (leaf_next y))) before"
      "fst (leaf_next x) = Inl StopIteration"
    using r first_error_split[OF that(2,3), of after] that(1) by simp
  have b: "list_all (\<lambda>y. \<not> isl (fst (leaf_next y))) (leaves ?its) \<and>
      shape out = shape ?its \<and>
      leaves out = map (\<lambda>y. projr (fst (leaf_next y))) (leaves ?its)"
    if "fst (CombinedLoaderIterator_next s) = Inr out"
  proof -
    from that r have n: "first_error leaf_next (leaves ?its) = None"
      and o: "out = map_nested (\<lambda>x. projr (fst (leaf_next x))) ?its"
      by (auto split: option.splits)
    show ?thesis using n o
      by (simp add: first_error_None_iff shape_map_nested leaves_map_nested)
  qed
  show ?thesis using r a b by blast
qed

text \<open>
  A witness for claim C3: a session over two loaders whose second iterator is
  exhausted while the first still has a batch, and the first call of a session.
\<close>

theorem next_all_or_nothing_witness:
  "fst (CombinedLoaderIterator_next
         \<lparr>cli_loaders = Seq PyList [Leaf (Loader loader_b), Leaf (Loader loader_a)],
          cli_loader_iters = Some (Seq PyList
            [Leaf (LoaderIter [Yield (Batch [10, 11, 12, 13, 14])]), Leaf (LoaderIter [])])\<rparr>)
     = Inl StopIteration \<and>
   fst (CombinedLoaderIterator_next
         \<lparr>cli_loaders = Seq PyList [Leaf (Loader loader_b), Leaf (Loader loader_a)],
          cli_loader_iters = None\<rparr>)
     = Inr (Seq PyList [Leaf (Batch [0, 1, 2, 3, 4]), Leaf (Batch [0, 1, 2, 3])]) \<and>
   shape (Seq PyList [Leaf (Batch [0, 1, 2, 3, 4]), Leaf (Batch [0, 1, 2, 3 :: nat])]) =
     shape (loader_iters
         \<lparr>cli_loaders = Seq PyList [Leaf (Loader loader_b), Leaf (Loader loader_a)],
          cli_loader_iters = None\<rparr>)"
proof -
  let ?s2 = "\<lparr>cli_loaders = Seq PyList [Leaf (Loader loader_b), Leaf (Loader loader_a)],
          cli_loader_iters = Some (Seq PyList
            [Leaf (LoaderIter [Yield (Batch [10, 11, 12, 13, 14])]), Leaf (LoaderIter [])])\<rparr>"
  let ?s0 = "\<lparr>cli_loaders = Seq PyList [Leaf (Loader loader_b), Leaf (Loader loader_a)],
          cli_loader_iters = None\<rparr>"
  let ?out = "Seq PyList [Leaf (Batch [0, 1, 2, 3, 4]), Leaf (Batch [0, 1, 2, 3 :: nat])]"
  have a: "leaves (loader_iters ?s2) =
      [LoaderIter [Yield (Batch [10, 11, 12, 13, 14])]] @ LoaderIter [] # []"
    by (simp add: loader_iters_def)
  have b: "list_all (\<lambda>y. \<not> isl (fst (leaf_next y))) [LoaderIter [Yield (Batch [10, 11, 12, 13, 14 :: nat])]]"
    by simp
  have c: "fst (leaf_next (LoaderIter ([] :: nat list item event list))) = Inl StopIteration"
    by simp
  have 1: "fst (CombinedLoaderIterator_next ?s2) = Inl StopIteration"
    using next_all_or_nothing[of ?s2 "[LoaderIter [Yield (Batch [10, 11, 12, 13, 14])]]"
        "LoaderIter []" "[]"] a b c by blast
  have d: "fst (CombinedLoaderIterator_next ?s0) = Inr ?out"
    by (simp add: CombinedLoaderIterator_next_def loader_iters_def create_loader_iters_def
        apply_to_collection_def request_next_batch_def ex_defs)
  have 2: "shape ?out = shape (loader_iters ?s0)"
    using next_all_or_nothing[of ?s0 _ _ _ ?out] d by blast
  show ?thesis using 1 d 2 by blast
qed



subsection \<open>\<^verbatim>\<open>CycleIterator\<close>\<close>

text \<open>
  Claim C4. For a \<^verbatim>\<open>CycleIterator\<close> with a finite budget \<open>L\<close>, at most \<open>L\<close> of any
  number of calls of \<^verbatim>\<open>__next__\<close> after \<^verbatim>\<open>__iter__\<close> return a value; once the counter
  has reached the budget a call raises \<open>StopIteration\<close> and changes nothing; every
  call that returns a value has added exactly one to the counter, on the path
  without and on the path with a restart. With the budget \<^verbatim>\<open>inf\<close> a call raises
  \<open>StopIteration\<close> only when the wrapped source is itself exhausted right after a
  restart, that is when it is empty; around a source that is not empty and only
  yields, every call returns.
\<close>

theorem cycle_iterator_budget:
  "(ci_length c = Leaf (enat L) \<longrightarrow> returned (calls n (CycleIterator_iter c)) \<le> L) \<and>
   (ci_length c = Leaf (enat L) \<and> L \<le> ci_counter c \<longrightarrow>
      CycleIterator_next c = (Inl StopIteration, c)) \<and>
   (fst (CycleIterator_next c) = Inr v \<longrightarrow>
      ci_counter (snd (CycleIterator_next c)) = ci_counter c + 1) \<and>
   (ci_length c = Leaf \<infinity> \<and> fst (CycleIterator_next c) = Inl StopIteration \<longrightarrow>
      ci_loader_iter c = Some [] \<and> py_iter (ci_loader c) = []) \<and>
   (ci_length c = Leaf \<infinity> \<and> ci_loader c = Leaf ld \<and> list_all is_Yield (batches ld) \<and>
    batches ld \<noteq> [] \<longrightarrow>
      returned (calls n (CycleIterator_iter c)) = n)"
proof -
  have "returned (calls n (CycleIterator_iter c)) \<le> L" if "ci_length c = Leaf (enat L)"
    using returned_bound[of "CycleIterator_iter c" L n] that
    by (simp add: CycleIterator_iter_def)
  moreover have "returned (calls n (CycleIterator_iter c)) = n"
    if "ci_length c = Leaf \<infinity>" "ci_loader c = Leaf ld" "list_all is_Yield (batches ld)"
      "batches ld \<noteq> []"
  proof -
    have "CycleIterator_iter c = cycle_at \<infinity> ld 0"
      using that by (simp add: CycleIterator_iter_def cycle_at_def)
    then show ?thesis using unbounded_calls[OF that(3,4)] by simp
  qed
  ultimately show ?thesis
    using CycleIterator_next_stop[of c "enat L"] CycleIterator_next_counter[of c v]
      unbounded_stop[of c]
    by auto
qed

text \<open>
  A witness for claim C4: budget 3 around a loader of two batches, the same at the
  end of its budget and one pull before it, and budget \<^verbatim>\<open>inf\<close> around an empty loader
  and around a loader of two batches.
\<close>

theorem cycle_iterator_budget_witness:
  "returned (calls 5 (CycleIterator_iter (CycleIterator_init (Leaf loader_a) (Some (Leaf (enat 3)))))) \<le> 3 \<and>
   CycleIterator_next (cycle_at (enat 3) loader_a 3) = (Inl StopIteration, cycle_at (enat 3) loader_a 3) \<and>
   fst (CycleIterator_next (cycle_at (enat 3) loader_a 2)) = Inr (Batch [0, 1, 2, 3]) \<and>
   ci_counter (snd (CycleIterator_next (cycle_at (enat 3) loader_a 2))) = 3 \<and>
   fst (CycleIterator_next (CycleIterator_iter (CycleIterator_init (Leaf loader_empty) None)))
     = Inl StopIteration \<and>
   py_iter (Leaf loader_empty) = [] \<and>
   returned (calls 5 (CycleIterator_iter (CycleIterator_init (Leaf loader_a) None))) = 5"
proof -
  let ?c = "CycleIterator_init (Leaf loader_a) (Some (Leaf (enat 3)))"
  let ?c2 = "cycle_at (enat 3) loader_a 2"
  let ?c3 = "cycle_at (enat 3) loader_a 3"
  let ?ce = "CycleIterator_iter (CycleIterator_init (Leaf loader_empty) None)"
  let ?cu = "CycleIterator_init (Leaf loader_a) None"
  have 1: "returned (calls 5 (CycleIterator_iter ?c)) \<le> 3"
    using cycle_iterator_budget[of ?c 3 5] by (simp add: CycleIterator_init_def)
  have 2: "CycleIterator_next ?c3 = (Inl StopIteration, ?c3)"
    using cycle_iterator_budget[of ?c3 3] by (simp add: cycle_at_def)
  have v: "fst (CycleIterator_next ?c2) = Inr (Batch [0, 1, 2, 3])"
    by (simp add: cycle_at_def cycle_defs ex_defs)
  have 3: "ci_counter (snd (CycleIterator_next ?c2)) = 3"
    using cycle_iterator_budget[of ?c2 _ _ "Batch [0, 1, 2, 3]"] v by (simp add: cycle_at_def)
  have s: "fst (CycleIterator_next ?ce) = Inl StopIteration"
    by (simp add: cycle_defs ex_defs)
  have 4: "py_iter (Leaf loader_empty) = []"
    using cycle_iterator_budget[of ?ce] s by (simp add: cycle_defs)
  have 5: "returned (calls 5 (CycleIterator_iter ?cu)) = 5"
    using cycle_iterator_budget[of ?cu _ 5 _ loader_a]
    by (simp add: CycleIterator_init_def loader_a_def)
  show ?thesis using 1 2 v 3 s 4 5 by blast
qed

text \<open>
  Claim C5. Let the budget of a \<^verbatim>\<open>CycleIterator\<close> not be reached, and let it have an
  inner iterator. If the inner iterator yields, the value is returned and nothing
  is restarted. If it raises an exception other than \<open>StopIteration\<close>, that
  exception leaves \<^verbatim>\<open>__next__\<close> and the inner iterator is kept as the failed pull left
  it: nothing is restarted or retried. If it is exhausted, a fresh iterator is
  made from the wrapped source and pulled exactly once: the result of the call is the
  result of that pull, so \<open>StopIteration\<close> leaves the call when the source is empty,
  and so does any other exception of the pull. On each of these paths the counter
  grows by one.
\<close>

theorem cycle_iterator_restart:
  assumes "ci_length c = Leaf B" "enat (ci_counter c) < B" "ci_loader_iter c = Some it"
  shows "(it = Yield v # rest \<longrightarrow>
            CycleIterator_next c =
              (Inr v, c\<lparr>ci_loader_iter := Some rest, ci_counter := ci_counter c + 1\<rparr>)) \<and>
         (it = Raise e # rest \<longrightarrow>
            CycleIterator_next c =
              (Inl (SourceError e),
               c\<lparr>ci_loader_iter := Some rest, ci_counter := ci_counter c + 1\<rparr>)) \<and>
         (it = [] \<longrightarrow>
            CycleIterator_next c =
              (fst (py_next (py_iter (ci_loader c))),
               c\<lparr>ci_loader_iter := Some (snd (py_next (py_iter (ci_loader c)))),
                 ci_counter := ci_counter c + 1\<rparr>)) \<and>
         (it = [] \<and> py_iter (ci_loader c) = [] \<longrightarrow>
            fst (CycleIterator_next c) = Inl StopIteration) \<and>
         (it = [] \<and> py_iter (ci_loader c) = Raise e # rest \<longrightarrow>
            fst (CycleIterator_next c) = Inl (SourceError e))"
  using CycleIterator_next_pull[OF assms] by auto

text \<open>
  A witness for claim C5: a restart that returns the first batch again, an
  exception of the source that is passed on, and a restart of an empty source.
\<close>

theorem cycle_iterator_restart_witness:
  "CycleIterator_next (cycle_at (enat 3) loader_a 2) =
     (Inr (Batch [0, 1, 2, 3]), cycle_at (enat 3) loader_a 3) \<and>
   CycleIterator_next
     \<lparr>ci_length = Leaf (enat 5), ci_loader = Leaf loader_faulty,
      ci_loader_iter = Some [Raise ''io''], ci_counter = 1\<rparr> =
     (Inl (SourceError ''io''),
      \<lparr>ci_length = Leaf (enat 5), ci_loader = Leaf loader_faulty,
       ci_loader_iter = Some [], ci_counter = 2\<rparr>) \<and>
   fst (CycleIterator_next
     \<lparr>ci_length = Leaf (enat 5), ci_loader = Leaf loader_empty,
      ci_loader_iter = Some [], ci_counter = 0\<rparr>) = Inl StopIteration"
proof -
  let ?c2 = "cycle_at (enat 3) loader_a 2"
  let ?cf = "\<lparr>ci_length = Leaf (enat 5), ci_loader = Leaf loader_faulty,
      ci_loader_iter = Some [Raise ''io''], ci_counter = 1\<rparr>"
  let ?ce = "\<lparr>ci_length = Leaf (enat 5), ci_loader = Leaf loader_empty,
      ci_loader_iter = Some [], ci_counter = 0\<rparr>"
  have 1: "CycleIterator_next ?c2 = (Inr (Batch [0, 1, 2, 3]), cycle_at (enat 3) loader_a 3)"
    using cycle_iterator_restart[of ?c2 "enat 3" "[]"]
    by (simp add: cycle_at_def ex_defs eval_nat_numeral mod_Suc)
  have 2: "CycleIterator_next ?cf = (Inl (SourceError ''io''),
      \<lparr>ci_length = Leaf (enat 5), ci_loader = Leaf loader_faulty,
       ci_loader_iter = Some [], ci_counter = 2\<rparr>)"
    using cycle_iterator_restart[of ?cf "enat 5" "[Raise ''io'']" _ "[]" "''io''"] by simp
  have 3: "fst (CycleIterator_next ?ce) = Inl StopIteration"
    using cycle_iterator_restart[of ?ce "enat 5" "[]"] by (simp add: ex_defs)
  show ?thesis using 1 2 3 by blast
qed

subsection \<open>Construction with an unsupported mode\<close>

text \<open>
  Claim C7, as amended. The construction of a \<^verbatim>\<open>CombinedLoader\<close> with a mode that is
  not supported raises \<open>MisconfigurationException\<close>. The trace of the construction,
  which the traversals of the constructor produce access by access, holds no length
  query and no creation of an iterator at that point, only reads of the \<^verbatim>\<open>dataset\<close>
  attribute: the first statement of the constructor has run. On a flat container (a
  single loader, or a sequence or mapping of loaders) it has read the attribute of
  every loader, in order.
\<close>

theorem invalid_mode_fails_after_dataset_reads:
  "mode \<notin> set SUPPORTED_MODES \<Longrightarrow>
     snd (CombinedLoader_init loaders mode) = Inl MisconfigurationException \<and>
     list_all is_GetDataset (fst (CombinedLoader_init loaders mode)) \<and>
     (flat loaders \<longrightarrow>
        fst (CombinedLoader_init loaders mode) = map GetDataset (leaves loaders))"
proof -
  assume m: "mode \<notin> set SUPPORTED_MODES"
  have s: "snd (CombinedLoader_init loaders mode) = Inl MisconfigurationException"
    using m by (simp add: init_snd)
  have f: "fst (CombinedLoader_init loaders mode) = map GetDataset (leaves loaders)"
    using m by (simp add: init_fst)
  have "list_all is_GetDataset (map GetDataset (leaves loaders))"
    by (simp add: list_all_iff)
  then show ?thesis using s f by simp
qed

text \<open>
  A witness for claim C7: the two loaders of the docstring and the mode
  \<^verbatim>\<open>sequential\<close>. With the supported mode \<^verbatim>\<open>max_size_cycle\<close> the same trace goes on
  with the two length queries of \<^verbatim>\<open>_wrap_loaders_max_size_cycle\<close>, and the iterators
  are made when a session over the two loaders is first used.
\<close>

theorem invalid_mode_fails_after_dataset_reads_witness:
  "''sequential'' \<notin> set SUPPORTED_MODES \<and> flat doc_loaders \<and>
   snd (CombinedLoader_init doc_loaders ''sequential'') = Inl MisconfigurationException \<and>
   list_all is_GetDataset (fst (CombinedLoader_init doc_loaders ''sequential'')) \<and>
   fst (CombinedLoader_init doc_loaders ''sequential'') =
     [GetDataset loader_a, GetDataset loader_b] \<and>
   fst (CombinedLoader_init doc_loaders ''max_size_cycle'') =
     [GetDataset loader_a, GetDataset loader_b, GetLen loader_a, GetLen loader_b] \<and>
   fst (create_loader_iters_log (apply_to_collection Loader doc_loaders)) =
     [MakeIter loader_a, MakeIter loader_b]"
proof -
  have m: "''sequential'' \<notin> set SUPPORTED_MODES" by (simp add: SUPPORTED_MODES_def)
  have fl: "flat doc_loaders" by (simp add: flat_def doc_loaders_def)
  have l: "map GetDataset (leaves doc_loaders) = [GetDataset loader_a, GetDataset loader_b]"
    by (simp add: doc_loaders_def)
  have v: "fst (CombinedLoader_init doc_loaders ''max_size_cycle'') =
     [GetDataset loader_a, GetDataset loader_b, GetLen loader_a, GetLen loader_b]"
    by (simp add: doc_loaders_def CombinedLoader_init_def CombinedDataset_init_def
        COMPUTE_FUNCS_def SUPPORTED_MODES_def wrap_loaders_max_size_cycle_def
        getattr_dataset_def get_len_touch_def)
  have i: "fst (create_loader_iters_log (apply_to_collection Loader doc_loaders)) =
     [MakeIter loader_a, MakeIter loader_b]"
    by (simp add: doc_loaders_def create_loader_iters_log_def apply_to_collection_def)
  from invalid_mode_fails_after_dataset_reads[OF m, of doc_loaders]
  have "snd (CombinedLoader_init doc_loaders ''sequential'') = Inl MisconfigurationException"
    and "list_all is_GetDataset (fst (CombinedLoader_init doc_loaders ''sequential''))"
    and "fst (CombinedLoader_init doc_loaders ''sequential'') = map GetDataset (leaves doc_loaders)"
    using fl by blast+
  then show ?thesis using m fl l v i by simp
qed

text \<open>
  Claim C7 as stated fails: when the constructor raises it has read the \<^verbatim>\<open>dataset\<close>
  attribute of both loaders.
\<close>

theorem invalid_mode_touches_sources:
  "''sequential'' \<notin> set SUPPORTED_MODES \<and>
   CombinedLoader_init doc_loaders ''sequential'' =
     ([GetDataset loader_a, GetDataset loader_b], Inl MisconfigurationException) \<and>
   fst (CombinedLoader_init doc_loaders ''sequential'') \<noteq> []"
  by (simp add: doc_loaders_def CombinedLoader_init_def CombinedDataset_init_def COMPUTE_FUNCS_def
      SUPPORTED_MODES_def getattr_dataset_def)

subsection \<open>Aggregation over an empty container\<close>

text \<open>
  Claim C8. An empty sequence or an empty mapping has no aggregate length: each of
  the three length computations, \<^verbatim>\<open>CombinedDataset._calc_num_data\<close> with either
  reduction, \<^verbatim>\<open>CombinedLoader._calc_num_batches\<close> and the maximum taken in
  \<^verbatim>\<open>CombinedLoader._wrap_loaders_max_size_cycle\<close>, raises the \<open>ValueError\<close> of the
  builtin \<^verbatim>\<open>min\<close> or \<^verbatim>\<open>max\<close> on no items, which is what the spec calls
  AggregationError.
\<close>

theorem empty_container_aggregation_fails:
  "calc_num_data (Seq k []) ''min_size'' = Inl ValueError \<and>
   calc_num_data (Seq k []) ''max_size_cycle'' = Inl ValueError \<and>
   calc_num_data (Mapping []) ''min_size'' = Inl ValueError \<and>
   calc_num_data (Mapping []) ''max_size_cycle'' = Inl ValueError \<and>
   calc_num_batches (Seq k []) = Inl ValueError \<and>
   calc_num_batches (Mapping []) = Inl ValueError \<and>
   wrap_loaders_max_size_cycle (Seq k []) = ([], Inl ValueError) \<and>
   wrap_loaders_max_size_cycle (Mapping []) = ([], Inl ValueError)"
  by (simp add: calc_num_data_def calc_num_batches_def wrap_loaders_max_size_cycle_def
      apply_to_collection_def COMPUTE_FUNCS_simps)

end
